theory Spec2Isabelle
  imports Complex_Main "HOL-Library.Log_Nat" "HOL-Library.Multiset"
begin

section \<open>Numbers\<close>

text \<open>
  Every quantity of the backend is a JavaScript \<^verbatim>\<open>number\<close>, an IEEE-754 binary64
  value. A finite binary64 value is a dyadic rational, so numbers are modelled as
  \<^typ>\<open>rat\<close>, and every arithmetic operation of the source takes the arithmetic it is
  evaluated in as a parameter:
  \<^item> \<open>Exact\<close>: the result of an operation is the mathematical result;
  \<^item> \<open>Binary64\<close>: the result of an operation is the result binary64 gives on finite
    operands: the mathematical result rounded to the nearest binary64 number, ties to the
    even significand, with gradual underflow, and \<open>\<plusminus>Infinity\<close> on overflow.
  Comparisons, \<^verbatim>\<open>Math.min\<close> and \<^verbatim>\<open>Math.abs\<close> are exact in both. The inputs are
  finite numbers. \<open>NaN\<close> and the sign of zero are not modelled: from finite inputs the code
  reaches \<open>NaN\<close> only as \<open>0 \<times> Infinity\<close> in the compliance balance, for a route whose intensity
  is the target itself and whose energy overflows, and there the model gives 0.
\<close>

type_synonym number = rat

datatype arith = Exact | Binary64

definition pow2 :: "int \<Rightarrow> rat" where
  "pow2 e = (if 0 \<le> e then 2 ^ nat e else 1 / 2 ^ nat (- e))"

definition roundTiesToEven :: "rat \<Rightarrow> int" where
  "roundTiesToEven x =
     (let f = \<lfloor>x\<rfloor>; d = x - of_int f
      in if d < 1 / 2 then f else if 1 / 2 < d then f + 1 else if even f then f else f + 1)"

text \<open>The binary exponent \<open>e\<close> of a non-zero number: \<open>2 ^ e \<le> \<bar>x\<bar> < 2 ^ (e + 1)\<close>.\<close>

definition exponent :: "rat \<Rightarrow> int" where
  "exponent x =
     (let (p, q) = quotient_of \<bar>x\<bar>;
          e0 = bitlen p - bitlen q
      in if pow2 e0 \<le> \<bar>x\<bar> then e0 else e0 - 1)"

text \<open>
  Every finite binary64 number is below \<open>2 ^ 1024\<close> in magnitude, so the model writes
  \<open>Infinity\<close> as \<open>2 ^ 1024\<close> and \<open>- Infinity\<close> as \<open>- 2 ^ 1024\<close>; a number of that magnitude or
  more stands for the infinity of its sign. The constant is \<open>2 ^ 1024\<close> written out
  (\<open>infinity64_eq\<close> below).
\<close>

definition infinity64 :: number where
  "infinity64 = 179769313486231590772930519078902473361797697894230657273430081157732675805500963132708477322407536021120113879871393357658789768814416622492847430639474124377767893424865485276302219601246094119453082952085005768838150682342462881473913110540827237163350510684586298239947245938479716304835356329624224137216"

definition is_infinity :: "number \<Rightarrow> bool" where
  "is_infinity x = (infinity64 \<le> \<bar>x\<bar>)"

definition infinity_of :: "number \<Rightarrow> number" where
  "infinity_of x = (if x < 0 then - infinity64 else infinity64)"

text \<open>
  Rounding to binary64. The significand has 53 bits down to the exponent \<open>- 1022\<close>; below it
  the spacing stays \<open>2 ^ - 1074\<close>, the subnormal numbers, so a result under \<open>2 ^ - 1075\<close> is 0.
  A result that rounds to \<open>2 ^ 1024\<close> or more is the infinity of its sign.
\<close>

definition binary64 :: "rat \<Rightarrow> rat" where
  "binary64 x =
     (if x = 0 then 0
      else let u = pow2 (max (exponent x) (- 1022) - 52);
               r = of_int (roundTiesToEven (x / u)) * u
           in if infinity64 \<le> \<bar>r\<bar> then infinity_of x else r)"

fun fl :: "arith \<Rightarrow> number \<Rightarrow> number" where
  "fl Exact x = x"
| "fl Binary64 x = binary64 x"

text \<open>A decimal literal of the source denotes the nearest number of the arithmetic.\<close>

definition lit :: "arith \<Rightarrow> rat \<Rightarrow> number" where
  "lit ar x = fl ar x"

text \<open>
  \<^verbatim>\<open>a * b\<close>. An infinity times a non-zero number is the infinity of the product's sign.
\<close>

definition num_mul :: "arith \<Rightarrow> number \<Rightarrow> number \<Rightarrow> number" where
  "num_mul ar a b =
     (case ar of
        Exact \<Rightarrow> a * b
      | Binary64 \<Rightarrow>
          if (is_infinity a \<or> is_infinity b) \<and> a * b \<noteq> 0 then infinity_of (a * b)
          else binary64 (a * b))"

text \<open>
  \<^verbatim>\<open>a / b\<close>. Every divisor of the source is a non-zero literal; an infinity divided by
  it is the infinity of the quotient's sign.
\<close>

definition num_div :: "arith \<Rightarrow> number \<Rightarrow> number \<Rightarrow> number" where
  "num_div ar a b =
     (case ar of
        Exact \<Rightarrow> a / b
      | Binary64 \<Rightarrow> if is_infinity a then infinity_of (a / b) else binary64 (a / b))"

text \<open>
  \<^verbatim>\<open>a + b\<close> as \<^verbatim>\<open>reduce\<close> applies it to a running sum and a finite number: a sum
  that has overflowed stays the infinity it is.
\<close>

definition num_plus :: "arith \<Rightarrow> number \<Rightarrow> number \<Rightarrow> number" where
  "num_plus ar a b =
     (case ar of
        Exact \<Rightarrow> a + b
      | Binary64 \<Rightarrow>
          if is_infinity a then a else if is_infinity b then b else binary64 (a + b))"

text \<open>
  The other additions and subtractions of the source have finite operands, and either only
  the sign of the result is used (the comparator of the sort), or the result cannot overflow:
  a transfer of the allocator gives a result between zero and an operand, and the subtractions
  of the target intensity and of the compliance balance have a first operand of at most 91.16.
  The sum or difference of two finite binary64 numbers is a multiple of \<open>2 ^ - 1074\<close>, so it
  does not underflow, and below \<open>2 ^ 1024\<close> its rounding to a 53-bit significand is the
  binary64 result; beyond, it has the sign of the infinity the code gets (\<open>binary64_sum\<close>,
  \<open>num_add_finite64\<close> and \<open>num_sub_small\<close> below). These operations are modelled by that
  rounding, at any exponent.
\<close>

definition round64 :: "rat \<Rightarrow> rat" where
  "round64 x =
     (if x = 0 then 0
      else let u = pow2 (exponent x - 52)
           in of_int (roundTiesToEven (x / u)) * u)"

fun rnd :: "arith \<Rightarrow> number \<Rightarrow> number" where
  "rnd Exact x = x"
| "rnd Binary64 x = round64 x"

definition num_add :: "arith \<Rightarrow> number \<Rightarrow> number \<Rightarrow> number" where
  "num_add ar a b = rnd ar (a + b)"

definition num_sub :: "arith \<Rightarrow> number \<Rightarrow> number \<Rightarrow> number" where
  "num_sub ar a b = rnd ar (a - b)"

section \<open>Errors\<close>

text \<open>
  The source throws \<^verbatim>\<open>Error(message)\<close> and \<^verbatim>\<open>ValidationError(message)\<close>. The two
  messages of \<^verbatim>\<open>validatePoolingRules\<close> are template strings over the ship and the
  numbers involved; they are kept as constructors carrying those values, both standing for a
  \<^verbatim>\<open>ValidationError\<close>. \<open>NoBankedSurplus\<close> and \<open>AmountExceedsBanked\<close> are the two
  failures the spec names for \<^verbatim>\<open>applyBanked\<close>; no code of the source throws them.
\<close>

datatype error =
    Error string
  | ValidationError string
  | MemberExitsWorse string number number
  | MemberExitsNegative string number
  | NoBankedSurplus
  | AmountExceedsBanked

abbreviation RouteNotFound :: error where
  "RouteNotFound \<equiv> Error ''Route not found''"

abbreviation RecordNotFound :: error where
  "RecordNotFound \<equiv> Error ''Compliance balance not found''"

abbreviation NonPositiveCB :: error where
  "NonPositiveCB \<equiv> ValidationError ''Cannot bank negative or zero CB''"

abbreviation AmountExceedsAvailable :: error where
  "AmountExceedsAvailable \<equiv> ValidationError ''Amount exceeds available CB''"

abbreviation PoolMinimumMembers :: error where
  "PoolMinimumMembers \<equiv> ValidationError ''Pool must have at least 2 members''"

abbreviation PoolNegativeTotal :: error where
  "PoolNegativeTotal \<equiv> ValidationError ''Pool total CB must be non-negative''"

fun isValidationError :: "error \<Rightarrow> bool" where
  "isValidationError (Error m) = False"
| "isValidationError (ValidationError m) = True"
| "isValidationError (MemberExitsWorse s a b) = True"
| "isValidationError (MemberExitsNegative s a) = True"
| "isValidationError NoBankedSurplus = True"
| "isValidationError AmountExceedsBanked = True"

section \<open>Route\<close>

datatype VesselType = CONTAINER | BULK_CARRIER | TANKER | RORO

datatype FuelType = HFO | LNG | MGO

record RouteProps =
  props_id :: string
  props_routeId :: string
  props_vesselType :: VesselType
  props_fuelType :: FuelType
  props_year :: number
  props_ghgIntensity :: number
  props_fuelConsumption :: number
  props_distance :: number
  props_isBaseline :: bool

record Route =
  route_id :: string
  route_routeId :: string
  route_vesselType :: VesselType
  route_fuelType :: FuelType
  route_year :: number
  route_ghgIntensity :: number
  route_fuelConsumption :: number
  route_distance :: number
  route_isBaseline :: bool

text \<open>\<^verbatim>\<open>Route.validate\<close>: the first failing check throws.\<close>

definition validate :: "Route \<Rightarrow> error + unit" where
  "validate r =
     (if route_ghgIntensity r \<le> 0 then Inl (ValidationError ''GHG intensity must be positive'')
      else if route_fuelConsumption r \<le> 0
        then Inl (ValidationError ''Fuel consumption must be positive'')
      else if route_year r < 2024 then Inl (ValidationError ''Year must be 2024 or later'')
      else Inr ())"

text \<open>
  \<^verbatim>\<open>Route.create\<close> calls the private constructor, which assigns the nine fields and
  then validates.
\<close>

definition create :: "RouteProps \<Rightarrow> error + Route" where
  "create props =
     (let r = \<lparr> route_id = props_id props,
                 route_routeId = props_routeId props,
                 route_vesselType = props_vesselType props,
                 route_fuelType = props_fuelType props,
                 route_year = props_year props,
                 route_ghgIntensity = props_ghgIntensity props,
                 route_fuelConsumption = props_fuelConsumption props,
                 route_distance = props_distance props,
                 route_isBaseline = props_isBaseline props \<rparr>
      in case validate r of Inl e \<Rightarrow> Inl e | Inr u \<Rightarrow> Inr r)"

definition calculateEnergyInScope :: "arith \<Rightarrow> Route \<Rightarrow> number" where
  "calculateEnergyInScope ar r = num_mul ar (route_fuelConsumption r) 41000"

section \<open>Compliance balance\<close>

record ComplianceBalance =
  cb_value :: number
  cb_year :: number
  cb_shipId :: string

text \<open>
  A compliance record as the use cases pass it to \<^verbatim>\<open>save\<close>; the identifier and the
  creation time, which the persistence layer adds, are left out.
\<close>

record ComplianceRecord =
  rec_shipId :: string
  rec_year :: number
  rec_cbGco2eq :: number
  rec_routeId :: "string option"

text \<open>
  Modelled from the spec: the repositories are interfaces in the source, with no
  implementation. The route store is a lookup by route code; the compliance store holds at
  most one record per (ship, year), \<^verbatim>\<open>save\<close> replacing the record of its key.
\<close>

type_synonym RouteRepository = "string \<rightharpoonup> Route"

type_synonym ComplianceRepository = "string \<times> number \<rightharpoonup> ComplianceRecord"

definition findByRouteId :: "RouteRepository \<Rightarrow> string \<Rightarrow> Route option" where
  "findByRouteId repo rid = repo rid"

definition findByShipAndYear ::
  "ComplianceRepository \<Rightarrow> string \<Rightarrow> number \<Rightarrow> ComplianceRecord option" where
  "findByShipAndYear repo ship yr = repo (ship, yr)"

definition save :: "ComplianceRepository \<Rightarrow> ComplianceRecord \<Rightarrow> ComplianceRepository" where
  "save repo r = repo((rec_shipId r, rec_year r) \<mapsto> r)"

record ComputeCBCommand =
  cc_routeId :: string
  cc_shipId :: string
  cc_year :: number

text \<open>
  The table of \<^verbatim>\<open>getTargetIntensity\<close>, a lookup by the year's value. Each entry is a
  binary64 number as written.
\<close>

definition reductionRates :: "number \<rightharpoonup> number" where
  "reductionRates yr =
     (if yr = 2025 then Some 2
      else if yr = 2030 then Some 6
      else if yr = 2035 then Some 14.5
      else if yr = 2040 then Some 31
      else if yr = 2045 then Some 62
      else if yr = 2050 then Some 80
      else None)"

text \<open>\<^verbatim>\<open>reductionRates[year] || 2\<close>: a missing entry, and a zero one, give 2.\<close>

definition getTargetIntensity :: "arith \<Rightarrow> number \<Rightarrow> number" where
  "getTargetIntensity ar yr =
     (let baseline = lit ar 91.16;
          reductionPercent =
            (case reductionRates yr of None \<Rightarrow> 2 | Some p \<Rightarrow> if p = 0 then 2 else p)
      in num_mul ar baseline (num_sub ar 1 (num_div ar reductionPercent 100)))"

definition ComputeCBUseCase_execute ::
  "arith \<Rightarrow> RouteRepository \<Rightarrow> ComplianceRepository \<Rightarrow> ComputeCBCommand
     \<Rightarrow> error + ComplianceBalance \<times> ComplianceRepository" where
  "ComputeCBUseCase_execute ar routeRepo complianceRepo command =
     (case findByRouteId routeRepo (cc_routeId command) of
        None \<Rightarrow> Inl (Error ''Route not found'')
      | Some route \<Rightarrow>
          let targetIntensity = getTargetIntensity ar (cc_year command);
              energyInScope = calculateEnergyInScope ar route;
              cbValue = num_div ar
                (num_mul ar (num_sub ar targetIntensity (route_ghgIntensity route)) energyInScope)
                1000000;
              complianceRepo' = save complianceRepo
                \<lparr> rec_shipId = cc_shipId command, rec_year = cc_year command,
                  rec_cbGco2eq = cbValue, rec_routeId = Some (route_routeId route) \<rparr>
          in Inr (\<lparr> cb_value = cbValue, cb_year = cc_year command,
                     cb_shipId = cc_shipId command \<rparr>, complianceRepo'))"

section \<open>Banking\<close>

record BankSurplusCommand =
  bs_shipId :: string
  bs_year :: number
  bs_amount :: number

text \<open>
  Modelled from the spec: \<^verbatim>\<open>IBankRepository\<close> has no implementation in the source. A
  bank entry holds the amount banked for (ship, year) and the part of it already applied;
  \<^verbatim>\<open>create\<close> stores a new entry with nothing applied, after the existing ones.
\<close>

record BankEntry =
  be_shipId :: string
  be_year :: number
  be_amountGco2eq :: number
  be_appliedAmount :: number

type_synonym BankRepository = "BankEntry list"

definition bank_create :: "BankRepository \<Rightarrow> string \<Rightarrow> number \<Rightarrow> number \<Rightarrow> BankRepository" where
  "bank_create repo ship yr amount =
     repo @ [\<lparr> be_shipId = ship, be_year = yr, be_amountGco2eq = amount,
                be_appliedAmount = 0 \<rparr>]"

text \<open>
  \<^verbatim>\<open>BankSurplusUseCase.execute\<close>. The result is the error thrown, if any, and the two
  stores as the call leaves them.
\<close>

definition BankSurplusUseCase_execute ::
  "ComplianceRepository \<Rightarrow> BankRepository \<Rightarrow> BankSurplusCommand
     \<Rightarrow> (error + unit) \<times> ComplianceRepository \<times> BankRepository" where
  "BankSurplusUseCase_execute complianceRepo bankRepo command =
     (case findByShipAndYear complianceRepo (bs_shipId command) (bs_year command) of
        None \<Rightarrow> (Inl (Error ''Compliance balance not found''), complianceRepo, bankRepo)
      | Some cbRecord \<Rightarrow>
          if rec_cbGco2eq cbRecord \<le> 0
            then (Inl (ValidationError ''Cannot bank negative or zero CB''),
                  complianceRepo, bankRepo)
          else if bs_amount command > rec_cbGco2eq cbRecord
            then (Inl (ValidationError ''Amount exceeds available CB''),
                  complianceRepo, bankRepo)
          else (Inr (), complianceRepo,
                bank_create bankRepo (bs_shipId command) (bs_year command) (bs_amount command)))"

text \<open>
  Modelled from the spec: \<^verbatim>\<open>IBankRepository.getTotalBanked\<close> has no implementation in
  the source. It is the cumulative unapplied banked total for (ship, year): over the entries of
  the key, the amounts banked less the amounts applied.
\<close>

definition for_key :: "string \<Rightarrow> number \<Rightarrow> BankEntry \<Rightarrow> bool" where
  "for_key ship yr e = (be_shipId e = ship \<and> be_year e = yr)"

definition getTotalBanked :: "BankRepository \<Rightarrow> string \<Rightarrow> number \<Rightarrow> number" where
  "getTotalBanked repo ship yr =
     sum_list (map (\<lambda>e. be_amountGco2eq e - be_appliedAmount e) (filter (for_key ship yr) repo))"

definition totalApplied :: "BankRepository \<Rightarrow> string \<Rightarrow> number \<Rightarrow> number" where
  "totalApplied repo ship yr = sum_list (map be_appliedAmount (filter (for_key ship yr) repo))"

text \<open>
  Modelled from the spec: \<^verbatim>\<open>IBankRepository.applyBanked\<close> has no implementation in the
  source, and no use case calls it. It fails with \<open>NoBankedSurplus\<close> if the cumulative
  unapplied banked total for (ship, year) is at most zero, fails with \<open>AmountExceedsBanked\<close>
  if the amount exceeds that total, and otherwise increases the applied portion by the amount.
  The spec does not say how the applied amount is spread over the entries of the key: the
  model books it on the oldest one.
\<close>

fun book_applied :: "string \<Rightarrow> number \<Rightarrow> number \<Rightarrow> BankEntry list \<Rightarrow> BankEntry list" where
  "book_applied ship yr amount [] = []"
| "book_applied ship yr amount (e # es) =
     (if for_key ship yr e then e\<lparr>be_appliedAmount := be_appliedAmount e + amount\<rparr> # es
      else e # book_applied ship yr amount es)"

definition applyBanked :: "BankRepository \<Rightarrow> string \<Rightarrow> number \<Rightarrow> number \<Rightarrow> error + BankRepository" where
  "applyBanked repo ship yr amount =
     (if getTotalBanked repo ship yr \<le> 0 then Inl NoBankedSurplus
      else if amount > getTotalBanked repo ship yr then Inl AmountExceedsBanked
      else Inr (book_applied ship yr amount repo))"

section \<open>Pooling\<close>

record PoolMemberInput =
  m_shipId :: string
  m_cbBefore :: number

record PoolAllocation =
  shipId :: string
  cbBefore :: number
  cbAfter :: number

record CreatePoolCommand =
  cp_year :: number
  cp_members :: "PoolMemberInput list"

text \<open>
  Modelled from the spec: \<^verbatim>\<open>IPoolRepository\<close> has no implementation in the source.
  The store is the list of the pools created so far, and the identifier \<^verbatim>\<open>create\<close>
  returns is the position of the new pool.
\<close>

record Pool =
  pool_year :: number
  pool_members :: "PoolAllocation list"

type_synonym PoolRepository = "Pool list"

definition pool_create :: "PoolRepository \<Rightarrow> Pool \<Rightarrow> nat \<times> PoolRepository" where
  "pool_create repo pool = (length repo, repo @ [pool])"

text \<open>
  \<^verbatim>\<open>Array.prototype.sort\<close> is a stable sort by the comparator: \<open>a\<close> stays before \<open>b\<close>
  unless the comparator is positive on \<open>(a, b)\<close>. It is modelled as the insertion sort with
  that property.
\<close>

fun insertBy :: "('a \<Rightarrow> 'a \<Rightarrow> number) \<Rightarrow> 'a \<Rightarrow> 'a list \<Rightarrow> 'a list" where
  "insertBy cmp a [] = [a]"
| "insertBy cmp a (b # bs) = (if cmp a b \<le> 0 then a # b # bs else b # insertBy cmp a bs)"

definition sortBy :: "('a \<Rightarrow> 'a \<Rightarrow> number) \<Rightarrow> 'a list \<Rightarrow> 'a list" where
  "sortBy cmp xs = foldr (insertBy cmp) xs []"

text \<open>The sorted working copy of \<^verbatim>\<open>greedyAllocate\<close>, largest balance first.\<close>

definition sorted_members :: "arith \<Rightarrow> PoolMemberInput list \<Rightarrow> PoolMemberInput list" where
  "sorted_members ar members = sortBy (\<lambda>a b. num_sub ar (m_cbBefore b) (m_cbBefore a)) members"

text \<open>
  The inner loop of \<^verbatim>\<open>greedyAllocate\<close> for the surplus member \<open>i\<close>:
  \<open>transfers ar i n allocations\<close> runs \<open>j = n - 1, \<dots>, 0\<close>, and the \<^verbatim>\<open>break\<close> leaves
  it as soon as member \<open>i\<close> is at zero after a transfer.
\<close>

fun transfers :: "arith \<Rightarrow> nat \<Rightarrow> nat \<Rightarrow> PoolAllocation list \<Rightarrow> PoolAllocation list" where
  "transfers ar i 0 allocations = allocations"
| "transfers ar i (Suc j) allocations =
     (if cbAfter (allocations ! j) < 0 then
        let transfer = min (cbAfter (allocations ! i)) \<bar>cbAfter (allocations ! j)\<bar>;
            allocations1 = allocations
              [i := (allocations ! i)\<lparr>cbAfter := num_sub ar (cbAfter (allocations ! i)) transfer\<rparr>];
            allocations2 = allocations1
              [j := (allocations1 ! j)\<lparr>cbAfter := num_add ar (cbAfter (allocations1 ! j)) transfer\<rparr>]
        in if cbAfter (allocations2 ! i) = 0 then allocations2
           else transfers ar i j allocations2
      else transfers ar i j allocations)"

text \<open>The body of the outer loop, for one \<open>i\<close>.\<close>

definition allocate_from :: "arith \<Rightarrow> PoolAllocation list \<Rightarrow> nat \<Rightarrow> PoolAllocation list" where
  "allocate_from ar allocations i =
     (if cbAfter (allocations ! i) > 0 then transfers ar i (length allocations) allocations
      else allocations)"

definition greedyAllocate :: "arith \<Rightarrow> PoolMemberInput list \<Rightarrow> PoolAllocation list" where
  "greedyAllocate ar members =
     (let sorted = sorted_members ar members;
          allocations = map (\<lambda>m. \<lparr> shipId = m_shipId m, cbBefore = m_cbBefore m,
                                    cbAfter = m_cbBefore m \<rparr>) sorted
      in foldl (allocate_from ar) allocations [0 ..< length allocations])"

text \<open>
  \<^verbatim>\<open>new Map(original.map(m => [m.shipId, m.cbBefore]))\<close>: of two members with the same
  ship, the later one gives the value.
\<close>

definition originalMap :: "PoolMemberInput list \<Rightarrow> string \<rightharpoonup> number" where
  "originalMap original = map_of (rev (map (\<lambda>m. (m_shipId m, m_cbBefore m)) original))"

text \<open>
  The loop of \<^verbatim>\<open>validatePoolingRules\<close>. A ship missing from the map would give
  \<^verbatim>\<open>undefined\<close>, on which both comparisons are false.
\<close>

fun check_rules :: "(string \<rightharpoonup> number) \<Rightarrow> PoolAllocation list \<Rightarrow> error + unit" where
  "check_rules omap [] = Inr ()"
| "check_rules omap (alloc # rest) =
     (case omap (shipId alloc) of
        None \<Rightarrow> check_rules omap rest
      | Some before \<Rightarrow>
          let after = cbAfter alloc
          in if before < 0 \<and> after < before then Inl (MemberExitsWorse (shipId alloc) after before)
             else if before > 0 \<and> after < 0 then Inl (MemberExitsNegative (shipId alloc) after)
             else check_rules omap rest)"

definition validatePoolingRules :: "PoolMemberInput list \<Rightarrow> PoolAllocation list \<Rightarrow> error + unit" where
  "validatePoolingRules original allocated = check_rules (originalMap original) allocated"

text \<open>\<^verbatim>\<open>members.reduce((sum, m) => sum + m.cbBefore, 0)\<close>\<close>

definition totalCB :: "arith \<Rightarrow> PoolMemberInput list \<Rightarrow> number" where
  "totalCB ar members = foldl (\<lambda>sum m. num_plus ar sum (m_cbBefore m)) 0 members"

text \<open>
  \<^verbatim>\<open>CreatePoolUseCase.execute\<close>. The result is the error thrown, or the pool identifier
  and the allocations, and the pool store as the call leaves it.
\<close>

definition CreatePoolUseCase_execute ::
  "arith \<Rightarrow> PoolRepository \<Rightarrow> CreatePoolCommand
     \<Rightarrow> (error + nat \<times> PoolAllocation list) \<times> PoolRepository" where
  "CreatePoolUseCase_execute ar poolRepo command =
     (if length (cp_members command) < 2
        then (Inl (ValidationError ''Pool must have at least 2 members''), poolRepo)
      else if totalCB ar (cp_members command) < 0
        then (Inl (ValidationError ''Pool total CB must be non-negative''), poolRepo)
      else
        let allocations = greedyAllocate ar (cp_members command)
        in case validatePoolingRules (cp_members command) allocations of
             Inl e \<Rightarrow> (Inl e, poolRepo)
           | Inr u \<Rightarrow>
               let (poolId, poolRepo') =
                     pool_create poolRepo \<lparr> pool_year = cp_year command, pool_members = allocations \<rparr>
               in (Inr (poolId, allocations), poolRepo'))"

section \<open>Notions used in the statements\<close>

text \<open>A number of the arithmetic: rounding leaves it as it is.\<close>

definition representable :: "arith \<Rightarrow> number \<Rightarrow> bool" where
  "representable ar x = (rnd ar x = x)"

text \<open>A finite binary64 number: rounding to binary64 leaves it as it is, and it is no infinity.\<close>

definition finite64 :: "number \<Rightarrow> bool" where
  "finite64 x = (binary64 x = x \<and> \<not> is_infinity x)"

text \<open>
  A multiple of \<open>2 ^ k\<close> of magnitude at most \<open>2 ^ 53 \<times> 2 ^ k\<close>: for \<open>k = 0\<close> an integer up to
  \<open>2 ^ 53\<close>, for \<open>k = - 1\<close> a number of halves up to \<open>2 ^ 52\<close>.
\<close>

definition on_grid :: "int \<Rightarrow> number \<Rightarrow> bool" where
  "on_grid k x = (x / pow2 k \<in> \<int> \<and> \<bar>x\<bar> \<le> 2 ^ 53 * pow2 k)"

text \<open>The reduction percentage of a year, as the spec's table gives it.\<close>

definition reductionPercent_spec :: "number \<Rightarrow> number" where
  "reductionPercent_spec yr =
     (if yr = 2025 then 2 else if yr = 2030 then 6 else if yr = 2035 then 14.5
      else if yr = 2040 then 31 else if yr = 2045 then 62 else if yr = 2050 then 80 else 2)"

text \<open>
  The spec's formula for the compliance balance, from the target intensity, the route's
  intensity and its fuel consumption, each operation in the given arithmetic.
\<close>

definition cbFormula_spec :: "arith \<Rightarrow> number \<Rightarrow> number \<Rightarrow> number \<Rightarrow> number" where
  "cbFormula_spec ar target intensity consumption =
     num_div ar (num_mul ar (num_sub ar target intensity) (num_mul ar consumption 41000)) 1000000"

text \<open>The balance returned by \<^verbatim>\<open>ComputeCBUseCase.execute\<close>, when it returns one.\<close>

definition returned_value :: "error + ComplianceBalance \<times> ComplianceRepository \<Rightarrow> number option" where
  "returned_value result = (case result of Inl e \<Rightarrow> None | Inr (balance, repo) \<Rightarrow> Some (cb_value balance))"

text \<open>The total of the balances after pooling, summed as the code sums the balances before.\<close>

definition totalAfter :: "arith \<Rightarrow> PoolAllocation list \<Rightarrow> number" where
  "totalAfter ar allocations = foldl (\<lambda>sum a. num_plus ar sum (cbAfter a)) 0 allocations"

text \<open>The fairness rule of the spec for one allocation.\<close>

definition fair :: "PoolAllocation \<Rightarrow> bool" where
  "fair a = ((cbBefore a < 0 \<longrightarrow> cbBefore a \<le> cbAfter a) \<and> (0 < cbBefore a \<longrightarrow> 0 \<le> cbAfter a))"

text \<open>An allocation whose balance has moved from its starting value towards zero, not past it.\<close>

definition toward_zero :: "PoolAllocation \<Rightarrow> bool" where
  "toward_zero a =
     ((0 \<le> cbAfter a \<and> cbAfter a \<le> cbBefore a) \<or> (cbBefore a \<le> cbAfter a \<and> cbAfter a \<le> 0))"

text \<open>One transfer of the inner loop, from member \<open>i\<close> to member \<open>j\<close>.\<close>

definition transfer_step :: "arith \<Rightarrow> nat \<Rightarrow> nat \<Rightarrow> PoolAllocation list \<Rightarrow> PoolAllocation list" where
  "transfer_step ar i j allocations =
     (let transfer = min (cbAfter (allocations ! i)) \<bar>cbAfter (allocations ! j)\<bar>;
          allocations1 = allocations
            [i := (allocations ! i)\<lparr>cbAfter := num_sub ar (cbAfter (allocations ! i)) transfer\<rparr>]
      in allocations1
            [j := (allocations1 ! j)\<lparr>cbAfter := num_add ar (cbAfter (allocations1 ! j)) transfer\<rparr>])"

text \<open>The allocations before the first transfer.\<close>

definition initial :: "PoolMemberInput list \<Rightarrow> PoolAllocation list" where
  "initial ms =
     map (\<lambda>m. \<lparr> shipId = m_shipId m, cbBefore = m_cbBefore m, cbAfter = m_cbBefore m \<rparr>) ms"

text \<open>
  The state of the outer loop after the members before \<open>m\<close>: every balance has moved towards
  zero, and either none of the members before \<open>m\<close> has surplus left or no member is in deficit.
\<close>

definition settled :: "nat \<Rightarrow> PoolAllocation list \<Rightarrow> bool" where
  "settled m al =
     ((\<forall>k<length al. toward_zero (al ! k))
      \<and> ((\<forall>k<m. cbAfter (al ! k) \<le> 0) \<or> (\<forall>k<length al. 0 \<le> cbAfter (al ! k))))"

section \<open>Example data\<close>

definition validProps :: RouteProps where
  "validProps = \<lparr> props_id = ''2'', props_routeId = ''R002'', props_vesselType = BULK_CARRIER,
     props_fuelType = LNG, props_year = 2024, props_ghgIntensity = 88,
     props_fuelConsumption = 4800, props_distance = 11500, props_isBaseline = True \<rparr>"

definition validRoute :: Route where
  "validRoute = \<lparr> route_id = ''2'', route_routeId = ''R002'', route_vesselType = BULK_CARRIER,
     route_fuelType = LNG, route_year = 2024, route_ghgIntensity = 88,
     route_fuelConsumption = 4800, route_distance = 11500, route_isBaseline = True \<rparr>"

definition exampleRoutes :: RouteRepository where
  "exampleRoutes = [''R002'' \<mapsto> validRoute]"

definition noRecords :: ComplianceRepository where
  "noRecords = Map.empty"

definition exampleCommand :: ComputeCBCommand where
  "exampleCommand = \<lparr> cc_routeId = ''R002'', cc_shipId = ''S001'', cc_year = 2025 \<rparr>"

definition surplusRecord :: ComplianceRecord where
  "surplusRecord = \<lparr> rec_shipId = ''S001'', rec_year = 2024, rec_cbGco2eq = 750.5,
     rec_routeId = Some ''R002'' \<rparr>"

definition deficitRecord :: ComplianceRecord where
  "deficitRecord = \<lparr> rec_shipId = ''S002'', rec_year = 2024, rec_cbGco2eq = - 100,
     rec_routeId = None \<rparr>"

definition exampleRecords :: ComplianceRepository where
  "exampleRecords = [(''S001'', 2024) \<mapsto> surplusRecord, (''S002'', 2024) \<mapsto> deficitRecord]"

definition bankCommand :: "string \<Rightarrow> number \<Rightarrow> BankSurplusCommand" where
  "bankCommand ship amount = \<lparr> bs_shipId = ship, bs_year = 2024, bs_amount = amount \<rparr>"

definition banked :: "string \<Rightarrow> number \<Rightarrow> number \<Rightarrow> BankEntry" where
  "banked ship amount applied =
     \<lparr> be_shipId = ship, be_year = 2024, be_amountGco2eq = amount, be_appliedAmount = applied \<rparr>"

definition bankedEntries :: BankRepository where
  "bankedEntries = [banked ''S002'' 40 0, banked ''S001'' 500 100, banked ''S001'' 200 0]"

definition member :: "string \<Rightarrow> number \<Rightarrow> PoolMemberInput" where
  "member ship cb = \<lparr> m_shipId = ship, m_cbBefore = cb \<rparr>"

definition allocation :: "string \<Rightarrow> number \<Rightarrow> number \<Rightarrow> PoolAllocation" where
  "allocation ship before after = \<lparr> shipId = ship, cbBefore = before, cbAfter = after \<rparr>"

definition poolCommand :: "PoolMemberInput list \<Rightarrow> CreatePoolCommand" where
  "poolCommand ms = \<lparr> cp_year = 2025, cp_members = ms \<rparr>"

text \<open>The pool of the spec's example.\<close>

definition exampleMembers :: "PoolMemberInput list" where
  "exampleMembers = [member ''S001'' 1250.5, member ''S002'' (- 800)]"

text \<open>A surplus of \<open>2 ^ 54\<close>, from which a transfer of 1 is lost to rounding in binary64.\<close>

definition roundingMembers :: "PoolMemberInput list" where
  "roundingMembers =
     [member ''S001'' (- 1), member ''S002'' (- 1), member ''S003'' 18014398509481984]"


text \<open>Members tied on their balance.\<close>

definition tiedMembers :: "PoolMemberInput list" where
  "tiedMembers = [member ''S001'' 5, member ''S002'' (- 3), member ''S003'' 5, member ''S004'' (- 3)]"


text \<open>
  Balances that sum to zero, with a running sum that binary64 rounds: \<open>- 3 - 2 ^ 53\<close> is
  rounded to \<open>- 2 ^ 53 - 4\<close>.
\<close>

definition cancellingMembers :: "PoolMemberInput list" where
  "cancellingMembers =
     [member ''S001'' (- 3), member ''S002'' (- 9007199254740992),
      member ''S003'' 9007199254740994, member ''S004'' 1]"

text \<open>
  Balances that sum to \<open>- 2\<close>, with a running sum in which binary64 loses both: \<open>- 2 - 2 ^ 54\<close>
  is rounded to \<open>- 2 ^ 54\<close>.
\<close>

definition absorbedMembers :: "PoolMemberInput list" where
  "absorbedMembers =
     [member ''S001'' (- 1), member ''S002'' (- 1), member ''S003'' (- 18014398509481984),
      member ''S004'' 18014398509481984]"

text \<open>
  Balances that sum to \<open>- 2 ^ 1023\<close>, with a running sum that overflows in binary64: the
  first two add up to \<open>2 ^ 1024\<close>.
\<close>

definition huge :: number where
  "huge = 2 ^ 1023"

definition overflowMembers :: "PoolMemberInput list" where
  "overflowMembers =
     [member ''S001'' huge, member ''S002'' huge, member ''S003'' (- huge),
      member ''S004'' (- huge), member ''S005'' (- huge)]"

text \<open>A deficit larger than the surplus, and a deficit equal to it.\<close>

definition deficitMembers :: "PoolMemberInput list" where
  "deficitMembers = [member ''S001'' 100, member ''S002'' (- 150)]"

definition balancedMembers :: "PoolMemberInput list" where
  "balancedMembers = [member ''S001'' 100, member ''S002'' (- 100)]"
section \<open>Rounding\<close>

text \<open>
  Rounding to a 53-bit significand keeps zero, keeps the sign and is monotone; the exponent
  computed from the bit lengths of numerator and denominator is the binary exponent.
\<close>

lemma pow2_powi: "pow2 e = 2 powi e"
proof (cases "0 \<le> e")
  case True
  then show ?thesis by (simp add: pow2_def power_int_def)
next
  case False
  then show ?thesis by (simp add: pow2_def power_int_def power_one_over [symmetric] inverse_eq_divide)
qed

lemma pow2_pos [simp]: "0 < pow2 e"
  by (simp add: pow2_powi)

lemma pow2_add: "pow2 (a + b) = pow2 a * pow2 b"
  by (simp add: pow2_powi power_int_add)

lemma pow2_mono: "a \<le> b \<Longrightarrow> pow2 a \<le> pow2 b"
  by (simp add: pow2_powi power_int_increasing)

lemma pow2_strict_mono: "a < b \<Longrightarrow> pow2 a < pow2 b"
  by (simp add: pow2_powi power_int_strict_increasing)

lemma pow2_less_imp: "pow2 a < pow2 b \<Longrightarrow> a < b"
  using pow2_mono [of b a] by (cases "a < b") auto

lemma bitlen_pow2_bounds:
  assumes "0 < n"
  shows "pow2 (bitlen n - 1) \<le> of_int n" and "of_int n < pow2 (bitlen n)"
proof -
  from assms have b1: "1 \<le> bitlen n"
    using bitlen_eq_zero_iff [of n] bitlen_nonneg [of n] by linarith
  from bitlen_bounds [OF assms]
  have lo: "2 ^ nat (bitlen n - 1) \<le> n" and hi: "n < 2 ^ nat (bitlen n)" by simp_all
  have "(of_int (2 ^ nat (bitlen n - 1)) :: rat) \<le> of_int n"
    using lo by (simp only: of_int_le_iff)
  then show "pow2 (bitlen n - 1) \<le> of_int n"
    using b1 by (simp add: pow2_def)
  have "(of_int n :: rat) < of_int (2 ^ nat (bitlen n))"
    using hi by (simp only: of_int_less_iff)
  then show "of_int n < pow2 (bitlen n)"
    using b1 by (simp add: pow2_def)
qed

lemma exponent_bounds:
  assumes "x \<noteq> 0"
  shows "pow2 (exponent x) \<le> \<bar>x\<bar>" and "\<bar>x\<bar> < pow2 (exponent x + 1)"
proof -
  obtain p q where pq: "quotient_of \<bar>x\<bar> = (p, q)" by (cases "quotient_of \<bar>x\<bar>")
  then have q: "0 < q" and x: "\<bar>x\<bar> = of_int p / of_int q"
    by (simp_all add: quotient_of_denom_pos quotient_of_div)
  from assms have "0 < \<bar>x\<bar>" by simp
  with x q have p: "0 < p" by (simp add: zero_less_divide_iff)
  let ?e0 = "bitlen p - bitlen q"
  note bp = bitlen_pow2_bounds [OF p] and bq = bitlen_pow2_bounds [OF q]
  have qpos: "(0::rat) < of_int q" using q by simp
  have lower: "pow2 (?e0 - 1) \<le> \<bar>x\<bar>"
  proof -
    have "pow2 (?e0 - 1) * of_int q \<le> pow2 (?e0 - 1) * pow2 (bitlen q)"
      using bq(2) by (simp add: less_imp_le)
    also have "\<dots> = pow2 (bitlen p - 1)"
      by (simp flip: pow2_add)
    also have "\<dots> \<le> of_int p" by (rule bp(1))
    finally show ?thesis using qpos by (simp add: x pos_le_divide_eq)
  qed
  have upper: "\<bar>x\<bar> < pow2 (?e0 + 1)"
  proof -
    have "of_int p < pow2 (bitlen p)" by (rule bp(2))
    also have "\<dots> = pow2 (?e0 + 1) * pow2 (bitlen q - 1)"
      by (simp flip: pow2_add)
    also have "\<dots> \<le> pow2 (?e0 + 1) * of_int q"
      using bq(1) by simp
    finally show ?thesis using qpos by (simp add: x pos_divide_less_eq)
  qed
  have e: "exponent x = (if pow2 ?e0 \<le> \<bar>x\<bar> then ?e0 else ?e0 - 1)"
    by (simp add: exponent_def pq Let_def)
  show "pow2 (exponent x) \<le> \<bar>x\<bar>"
    using lower by (simp add: e)
  show "\<bar>x\<bar> < pow2 (exponent x + 1)"
    using upper by (auto simp add: e not_le)
qed


lemma rte_bounds: "\<lfloor>a\<rfloor> \<le> roundTiesToEven a \<and> roundTiesToEven a \<le> \<lfloor>a\<rfloor> + 1"
  by (simp add: roundTiesToEven_def Let_def)

lemma rte_of_int [simp]: "roundTiesToEven (of_int n) = n"
  by (simp add: roundTiesToEven_def Let_def)

lemma rte_mono:
  assumes "a \<le> b"
  shows "roundTiesToEven a \<le> roundTiesToEven b"
proof (cases "\<lfloor>a\<rfloor> = \<lfloor>b\<rfloor>")
  case True
  with assms have "a - of_int \<lfloor>a\<rfloor> \<le> b - of_int \<lfloor>b\<rfloor>" by simp
  with True show ?thesis
    by (auto simp: roundTiesToEven_def Let_def)
next
  case False
  with assms have "\<lfloor>a\<rfloor> < \<lfloor>b\<rfloor>"
    using floor_mono [OF assms] by linarith
  with rte_bounds [of a] rte_bounds [of b] show ?thesis by linarith
qed

lemma rte_minus: "roundTiesToEven (- a) = - roundTiesToEven a"
proof (cases "a = of_int \<lfloor>a\<rfloor>")
  case True
  then obtain n where "a = of_int n" ..
  then have "roundTiesToEven (- a) = roundTiesToEven (of_int (- n))" by simp
  also have "\<dots> = - n" by (rule rte_of_int)
  finally show ?thesis using \<open>a = of_int n\<close> by simp
next
  case False
  then have lt: "of_int \<lfloor>a\<rfloor> < a" using of_int_floor_le [of a] by linarith
  have ub: "a < of_int \<lfloor>a\<rfloor> + 1"
    using floor_correct [of a] by simp
  have fl: "\<lfloor>- a\<rfloor> = - \<lfloor>a\<rfloor> - 1"
    using lt ub by (intro floor_unique) simp_all
  show ?thesis
    using lt by (simp add: roundTiesToEven_def Let_def fl)
qed


lemma exponent_minus [simp]: "exponent (- x) = exponent x"
  by (simp add: exponent_def)

lemma round64_zero [simp]: "round64 0 = 0"
  by (simp add: round64_def)

lemma round64_minus: "round64 (- x) = - round64 x"
  by (simp add: round64_def Let_def rte_minus)

lemma exponent_mono:
  assumes "0 < x" "x \<le> y"
  shows "exponent x \<le> exponent y"
proof -
  from assms have "x \<noteq> 0" "y \<noteq> 0" by auto
  from exponent_bounds(1) [OF \<open>x \<noteq> 0\<close>] exponent_bounds(2) [OF \<open>y \<noteq> 0\<close>] assms
  have "pow2 (exponent x) < pow2 (exponent y + 1)" by simp
  then have "exponent x < exponent y + 1" by (rule pow2_less_imp)
  then show ?thesis by simp
qed

lemma round64_pos_bounds:
  assumes "0 < x"
  shows "pow2 (exponent x) \<le> round64 x" and "round64 x \<le> pow2 (exponent x + 1)"
proof -
  let ?u = "pow2 (exponent x - 52)"
  from assms have nz: "x \<noteq> 0" by simp
  have r: "round64 x = of_int (roundTiesToEven (x / ?u)) * ?u"
    using nz by (simp add: round64_def Let_def)
  have e: "pow2 (exponent x) = 2 ^ 52 * ?u" "pow2 (exponent x + 1) = 2 ^ 53 * ?u"
    by (simp_all add: pow2_powi power_int_diff power_int_add)
  from exponent_bounds [OF nz] assms
  have "2 ^ 52 * ?u \<le> x" "x < 2 ^ 53 * ?u" by (simp_all add: e)
  then have lo: "of_int (2 ^ 52) \<le> x / ?u" and hi: "x / ?u \<le> of_int (2 ^ 53)"
    by (simp_all add: pos_le_divide_eq pos_divide_le_eq less_imp_le)
  from rte_mono [OF lo] have "2 ^ 52 \<le> roundTiesToEven (x / ?u)" by (simp only: rte_of_int)
  then have "(of_int (2 ^ 52) :: rat) \<le> of_int (roundTiesToEven (x / ?u))"
    by (simp only: of_int_le_iff)
  then show "pow2 (exponent x) \<le> round64 x"
    by (simp add: r e)
  from rte_mono [OF hi] have "roundTiesToEven (x / ?u) \<le> 2 ^ 53" by (simp only: rte_of_int)
  then have "(of_int (roundTiesToEven (x / ?u)) :: rat) \<le> of_int (2 ^ 53)"
    by (simp only: of_int_le_iff)
  then show "round64 x \<le> pow2 (exponent x + 1)"
    by (simp add: r e)
qed

lemma round64_pos: "0 < x \<Longrightarrow> 0 < round64 x"
  using round64_pos_bounds(1) [of x] pow2_pos [of "exponent x"] by linarith

lemma round64_mono_pos:
  assumes "0 < x" "x \<le> y"
  shows "round64 x \<le> round64 y"
proof (cases "exponent x = exponent y")
  case True
  let ?u = "pow2 (exponent x - 52)"
  from assms have "x / ?u \<le> y / ?u" by (simp add: divide_right_mono less_imp_le)
  from rte_mono [OF this] have "(of_int (roundTiesToEven (x / ?u)) :: rat) \<le> of_int (roundTiesToEven (y / ?u))"
    by (simp only: of_int_le_iff)
  then have "of_int (roundTiesToEven (x / ?u)) * ?u \<le> of_int (roundTiesToEven (y / ?u)) * ?u"
    by (simp add: mult_right_mono less_imp_le)
  with assms True show ?thesis by (simp add: round64_def Let_def)
next
  case False
  with exponent_mono [OF assms] have "exponent x + 1 \<le> exponent y" by simp
  from assms have "0 < y" by simp
  have "round64 x \<le> pow2 (exponent x + 1)" by (rule round64_pos_bounds(2) [OF assms(1)])
  also have "\<dots> \<le> pow2 (exponent y)" by (rule pow2_mono) fact
  also have "\<dots> \<le> round64 y" by (rule round64_pos_bounds(1) [OF \<open>0 < y\<close>])
  finally show ?thesis .
qed

lemma round64_mono:
  assumes "x \<le> y"
  shows "round64 x \<le> round64 y"
proof -
  consider "0 < x" | "x \<le> 0" "0 \<le> y" | "y < 0" by linarith
  then show ?thesis
  proof cases
    case 1
    then show ?thesis using assms by (rule round64_mono_pos)
  next
    case 2
    have "round64 x \<le> 0"
    proof (cases "x = 0")
      case False
      with 2 have "0 < - x" by simp
      from round64_pos [OF this] show ?thesis by (simp add: round64_minus)
    qed simp
    moreover have "0 \<le> round64 y"
    proof (cases "y = 0")
      case False
      with 2 have "0 < y" by simp
      from round64_pos [OF this] show ?thesis by simp
    qed simp
    ultimately show ?thesis by simp
  next
    case 3
    with assms have "0 < - y" "- y \<le> - x" by simp_all
    from round64_mono_pos [OF this] show ?thesis by (simp add: round64_minus)
  qed
qed

lemma round64_eq_0_iff [simp]: "round64 x = 0 \<longleftrightarrow> x = 0"
proof
  assume z: "round64 x = 0"
  show "x = 0"
  proof (rule ccontr)
    assume "x \<noteq> 0"
    then consider "0 < x" | "0 < - x" by linarith
    then show False
    proof cases
      case 1 from round64_pos [OF this] z show False by simp
    next
      case 2 from round64_pos [OF this] z show False by (simp add: round64_minus)
    qed
  qed
qed simp

lemma rnd_zero [simp]: "rnd ar 0 = 0"
  by (cases ar) simp_all

lemma rnd_mono: "x \<le> y \<Longrightarrow> rnd ar x \<le> rnd ar y"
  by (cases ar) (simp_all add: round64_mono)

lemma rnd_eq_0_iff [simp]: "rnd ar x = 0 \<longleftrightarrow> x = 0"
  by (cases ar) simp_all

lemma rnd_nonneg: "0 \<le> x \<Longrightarrow> 0 \<le> rnd ar x"
  using rnd_mono [of 0 x ar] by simp

lemma rnd_nonpos: "x \<le> 0 \<Longrightarrow> rnd ar x \<le> 0"
  using rnd_mono [of x 0 ar] by simp

lemma rnd_le_0_iff: "rnd ar x \<le> 0 \<longleftrightarrow> x \<le> 0"
proof
  assume a: "rnd ar x \<le> 0"
  show "x \<le> 0"
  proof (rule ccontr)
    assume "\<not> x \<le> 0"
    then have "0 \<le> x" "x \<noteq> 0" by simp_all
    with rnd_nonneg [of x ar] a have "rnd ar x = 0" by simp
    with \<open>x \<noteq> 0\<close> show False by simp
  qed
qed (rule rnd_nonpos)

text \<open>Rounding leaves the numbers of a grid as they are.\<close>

lemma pow2_nonneg_Ints: "0 \<le> j \<Longrightarrow> pow2 j \<in> \<int>"
  by (simp add: pow2_def)

lemma pow2_diff: "pow2 (a - b) = pow2 a / pow2 b"
  by (simp add: pow2_powi power_int_diff)

lemma pow2_le_imp: "pow2 a \<le> pow2 b \<Longrightarrow> a \<le> b"
  using pow2_strict_mono [of b a] by (cases "a \<le> b") auto

lemma pow2_neq_0 [simp]: "pow2 e \<noteq> 0"
  by (simp add: pow2_powi)

lemma pow2_numeral: "pow2 53 = 2 ^ 53" "pow2 52 = 2 ^ 52" "pow2 1 = 2"
  by (simp_all add: pow2_def)

lemma round64_exact:
  assumes "x / pow2 (exponent x - 52) \<in> \<int>"
  shows "round64 x = x"
proof (cases "x = 0")
  case False
  let ?u = "pow2 (exponent x - 52)"
  from assms obtain n where n: "x / ?u = of_int n" by (rule Ints_cases)
  have "round64 x = of_int (roundTiesToEven (x / ?u)) * ?u"
    using False by (simp add: round64_def Let_def)
  also have "\<dots> = (x / ?u) * ?u" by (simp only: n rte_of_int)
  also have "\<dots> = x" by simp
  finally show ?thesis .
qed simp

lemma on_grid_representable:
  assumes "on_grid k x"
  shows "round64 x = x"
proof (cases "x = 0")
  case False
  let ?e = "exponent x"
  from assms obtain n where n: "x / pow2 k = of_int n" by (auto simp: on_grid_def elim: Ints_cases)
  then have x: "x = of_int n * pow2 k" by (simp add: divide_eq_eq)
  with False have "n \<noteq> 0" by auto
  then have "1 \<le> \<bar>n\<bar>" by simp
  then have "(1::rat) \<le> \<bar>of_int n\<bar>" by (metis of_int_1 of_int_abs of_int_le_iff)
  then have "1 * pow2 k \<le> \<bar>of_int n\<bar> * pow2 k" by (intro mult_right_mono) (simp_all add: less_imp_le)
  then have lo: "pow2 k \<le> \<bar>x\<bar>" by (simp add: x abs_mult abs_of_pos)
  from assms have hi: "\<bar>x\<bar> \<le> pow2 (53 + k)"
    by (simp add: on_grid_def pow2_add pow2_numeral)
  note b = exponent_bounds [OF False]
  from lo b(2) have "pow2 k < pow2 (?e + 1)" by simp
  then have ke: "k \<le> ?e" using pow2_less_imp by fastforce
  from b(1) hi have "pow2 ?e \<le> pow2 (53 + k)" by simp
  then have ek: "?e \<le> 53 + k" by (rule pow2_le_imp)
  have "x / pow2 (?e - 52) \<in> \<int>"
  proof (cases "?e = 53 + k")
    case True
    with b(1) hi have "\<bar>x\<bar> = pow2 (53 + k)" by simp
    moreover have "pow2 (53 + k) = 2 ^ 52 * pow2 (?e - 52)"
      using True pow2_add [of 52 "1 + k"] by (simp add: pow2_numeral)
    ultimately have "\<bar>x\<bar> / pow2 (?e - 52) = 2 ^ 52" by simp
    then have "\<bar>x / pow2 (?e - 52)\<bar> = of_int (2 ^ 52)" by (simp add: abs_of_pos)
    then have "\<bar>x / pow2 (?e - 52)\<bar> \<in> \<int>" by (simp only: Ints_of_int)
    then show ?thesis
      using Ints_minus [of "- (x / pow2 (?e - 52))"] by (auto simp: abs_if split: if_splits)
  next
    case False
    with ek have j: "0 \<le> k - (?e - 52)" by simp
    have "x / pow2 (?e - 52) = of_int n * pow2 (k - (?e - 52))"
      by (simp add: x pow2_diff)
    also have "\<dots> \<in> \<int>" using pow2_nonneg_Ints [OF j] by simp
    finally show ?thesis .
  qed
  then show ?thesis by (rule round64_exact)
qed simp


lemma num_sub_le_0_iff: "(num_sub ar b a \<le> 0) = (b \<le> a)"
  by (simp add: num_sub_def rnd_le_0_iff)

text \<open>
  The exponent range. A finite binary64 number is a multiple of \<open>2 ^ - 1074\<close>, and on such
  multiples rounding to binary64 is rounding to a 53-bit significand, up to overflow. So on
  finite operands the additions and subtractions modelled by \<open>round64\<close> are the binary64
  ones whenever the result is no larger in magnitude than the larger operand, or one operand
  is below \<open>2 ^ 970\<close>, and the comparator of the sort has the sign of the binary64 difference
  also when that overflows. Rounding to binary64 gives the infinity of the sign from
  \<open>2 ^ 1024\<close> on, and 0 up to \<open>2 ^ - 1075\<close>.
\<close>

lemma infinity64_eq: "infinity64 = 2 ^ 1024"
  by (simp add: infinity64_def)

lemma infinity64_pow2: "infinity64 = pow2 1024"
  by (simp add: infinity64_eq pow2_def)

lemma infinity64_pos [simp]: "0 < infinity64"
  by (simp add: infinity64_eq)

lemma not_infinity_0 [simp]: "\<not> is_infinity 0"
  by (simp add: is_infinity_def not_le)

lemma abs_infinity_of [simp]: "\<bar>infinity_of x\<bar> = infinity64"
  using infinity64_pos by (simp add: infinity_of_def abs_if del: infinity64_pos)

lemma binary64_zero [simp]: "binary64 0 = 0"
  by (simp add: binary64_def)

lemma binary64_exact:
  assumes "x / pow2 (max (exponent x) (- 1022) - 52) \<in> \<int>" "\<not> is_infinity x"
  shows "binary64 x = x"
proof (cases "x = 0")
  case False
  let ?u = "pow2 (max (exponent x) (- 1022) - 52)"
  from assms(1) obtain n where n: "x / ?u = of_int n" by (rule Ints_cases)
  have "of_int (roundTiesToEven (x / ?u)) * ?u = (x / ?u) * ?u" by (simp only: n rte_of_int)
  also have "\<dots> = x" by simp
  finally have "of_int (roundTiesToEven (x / ?u)) * ?u = x" .
  with False assms(2) show ?thesis by (simp add: binary64_def Let_def is_infinity_def)
qed simp

lemma grid_finer:
  assumes "x / pow2 a \<in> \<int>" "b \<le> a"
  shows "x / pow2 b \<in> \<int>"
proof -
  have eq: "x / pow2 b = (x / pow2 a) * pow2 (a - b)" by (simp add: pow2_diff)
  have "pow2 (a - b) \<in> \<int>" using assms(2) by (intro pow2_nonneg_Ints) simp
  with assms(1) have "(x / pow2 a) * pow2 (a - b) \<in> \<int>" by (rule Ints_mult)
  then show ?thesis by (simp only: eq)
qed

lemma binary64_grid:
  assumes "x / pow2 (- 1074) \<in> \<int>"
  shows "binary64 x = (if is_infinity (round64 x) then infinity_of x else round64 x)"
proof (cases "x = 0")
  case True
  then show ?thesis by simp
next
  case False
  show ?thesis
  proof (cases "- 1022 \<le> exponent x")
    case True
    then have "max (exponent x) (- 1022) = exponent x" by simp
    with False show ?thesis by (simp add: binary64_def round64_def Let_def is_infinity_def)
  next
    case low: False
    then have e: "exponent x - 52 \<le> - 1074" by simp
    from grid_finer [OF assms e] have r: "round64 x = x" by (rule round64_exact)
    have "\<bar>x\<bar> < pow2 (exponent x + 1)" by (rule exponent_bounds(2) [OF False])
    also have "\<dots> \<le> pow2 1024" using low by (intro pow2_mono) simp
    finally have ni: "\<not> is_infinity x" by (simp add: is_infinity_def infinity64_pow2)
    have "max (exponent x) (- 1022) - 52 = - 1074" using low by simp
    with assms have "x / pow2 (max (exponent x) (- 1022) - 52) \<in> \<int>" by simp
    from binary64_exact [OF this ni] have "binary64 x = x" .
    with r ni show ?thesis by simp
  qed
qed

lemma finite64_grid:
  assumes "finite64 x"
  shows "x / pow2 (- 1074) \<in> \<int>"
proof (cases "x = 0")
  case False
  let ?k = "max (exponent x) (- 1022) - 52"
  let ?r = "of_int (roundTiesToEven (x / pow2 ?k)) * pow2 ?k"
  from assms have b: "binary64 x = x" and ni: "\<not> is_infinity x" by (simp_all add: finite64_def)
  have "\<not> infinity64 \<le> \<bar>?r\<bar>"
  proof
    assume "infinity64 \<le> \<bar>?r\<bar>"
    with False have "binary64 x = infinity_of x" by (simp add: binary64_def Let_def)
    with b have "\<bar>x\<bar> = infinity64" using abs_infinity_of [of x] by simp
    with ni show False by (simp add: is_infinity_def)
  qed
  with False b have "x = ?r" by (simp add: binary64_def Let_def)
  then have "x / pow2 ?k = of_int (roundTiesToEven (x / pow2 ?k))"
    by (simp add: divide_eq_eq)
  then have "x / pow2 ?k \<in> \<int>" by (metis Ints_of_int)
  then show ?thesis by (rule grid_finer) simp
qed simp

lemma finite64_round64:
  assumes "finite64 x"
  shows "round64 x = x"
proof -
  from assms have b: "binary64 x = x" and ni: "\<not> is_infinity x" by (simp_all add: finite64_def)
  note g = binary64_grid [OF finite64_grid [OF assms]]
  show ?thesis
  proof (cases "is_infinity (round64 x)")
    case True
    with g b have "x = infinity_of x" by simp
    then have "\<bar>x\<bar> = infinity64" using abs_infinity_of [of x] by simp
    with ni show ?thesis by (simp add: is_infinity_def)
  next
    case False
    with g b show ?thesis by simp
  qed
qed

lemma finite64_representable: "finite64 x \<Longrightarrow> representable Binary64 x"
  by (simp add: representable_def finite64_round64)

lemma binary64_sum:
  assumes "finite64 a" "finite64 b"
  shows "binary64 (a + b)
           = (if is_infinity (round64 (a + b)) then infinity_of (a + b) else round64 (a + b))"
    and "binary64 (a - b)
           = (if is_infinity (round64 (a - b)) then infinity_of (a - b) else round64 (a - b))"
proof -
  note ga = finite64_grid [OF assms(1)] and gb = finite64_grid [OF assms(2)]
  have "(a + b) / pow2 (- 1074) \<in> \<int>"
    using Ints_add [OF ga gb] by (simp add: add_divide_distrib)
  then show "binary64 (a + b)
           = (if is_infinity (round64 (a + b)) then infinity_of (a + b) else round64 (a + b))"
    by (rule binary64_grid)
  have "(a - b) / pow2 (- 1074) \<in> \<int>"
    using Ints_diff [OF ga gb] by (simp add: diff_divide_distrib)
  then show "binary64 (a - b)
           = (if is_infinity (round64 (a - b)) then infinity_of (a - b) else round64 (a - b))"
    by (rule binary64_grid)
qed

lemma round64_abs: "round64 \<bar>x\<bar> = \<bar>round64 x\<bar>"
proof (cases "0 \<le> x")
  case True
  with round64_mono [of 0 x] show ?thesis by simp
next
  case False
  then have "x \<le> 0" by simp
  with round64_mono [of x 0] have "round64 x \<le> 0" by simp
  with False show ?thesis by (simp add: round64_minus)
qed

lemma round64_bounded:
  assumes "finite64 c" "\<bar>x\<bar> \<le> \<bar>c\<bar>"
  shows "\<not> is_infinity (round64 x)"
proof -
  have "\<bar>round64 x\<bar> = round64 \<bar>x\<bar>" by (simp add: round64_abs)
  also have "\<dots> \<le> round64 \<bar>c\<bar>" by (rule round64_mono) fact
  also have "\<dots> = \<bar>c\<bar>" by (simp add: round64_abs finite64_round64 [OF assms(1)])
  finally show ?thesis using assms(1) by (simp add: is_infinity_def finite64_def)
qed

lemma num_add_finite64:
  assumes "finite64 a" "finite64 b"
  shows "\<bar>a + b\<bar> \<le> max \<bar>a\<bar> \<bar>b\<bar> \<Longrightarrow> num_add Binary64 a b = num_plus Binary64 a b"
    and "\<bar>a - b\<bar> \<le> max \<bar>a\<bar> \<bar>b\<bar> \<Longrightarrow> num_sub Binary64 a b = binary64 (a - b)"
    and "(num_sub Binary64 a b \<le> 0) = (binary64 (a - b) \<le> 0)"
proof -
  from assms have ni: "\<not> is_infinity a" "\<not> is_infinity b" by (simp_all add: finite64_def)
  have bounded: "\<not> is_infinity (round64 x)" if "\<bar>x\<bar> \<le> max \<bar>a\<bar> \<bar>b\<bar>" for x
  proof (cases "\<bar>a\<bar> \<le> \<bar>b\<bar>")
    case True
    with that have "\<bar>x\<bar> \<le> \<bar>b\<bar>" by simp
    then show ?thesis by (rule round64_bounded [OF assms(2)])
  next
    case False
    with that have "\<bar>x\<bar> \<le> \<bar>a\<bar>" by simp
    then show ?thesis by (rule round64_bounded [OF assms(1)])
  qed
  show "num_add Binary64 a b = num_plus Binary64 a b" if "\<bar>a + b\<bar> \<le> max \<bar>a\<bar> \<bar>b\<bar>"
    using bounded [OF that] ni by (simp add: num_add_def num_plus_def binary64_sum(1) [OF assms])
  show "num_sub Binary64 a b = binary64 (a - b)" if "\<bar>a - b\<bar> \<le> max \<bar>a\<bar> \<bar>b\<bar>"
    using bounded [OF that] by (simp add: num_sub_def binary64_sum(2) [OF assms])
  show "(num_sub Binary64 a b \<le> 0) = (binary64 (a - b) \<le> 0)"
  proof (cases "is_infinity (round64 (a - b))")
    case True
    then have "a - b \<noteq> 0" by auto
    moreover have "(round64 (a - b) \<le> 0) = (a - b \<le> 0)"
      using rnd_le_0_iff [of Binary64 "a - b"] by simp
    ultimately show ?thesis
      using True infinity64_pos
      by (simp add: num_sub_def binary64_sum(2) [OF assms] infinity_of_def del: infinity64_pos)
  next
    case False
    then show ?thesis by (simp add: num_sub_def binary64_sum(2) [OF assms])
  qed
qed

lemma on_grid_finite64:
  assumes "- 1074 \<le> k" "k \<le> 970" "on_grid k x"
  shows "finite64 x"
proof -
  from assms(3) have "x / pow2 k \<in> \<int>" by (simp add: on_grid_def)
  then have g: "x / pow2 (- 1074) \<in> \<int>" using assms(1) by (rule grid_finer)
  have r: "round64 x = x" by (rule on_grid_representable [OF assms(3)])
  from assms(3) have "\<bar>x\<bar> \<le> pow2 (53 + k)" by (simp add: on_grid_def pow2_add pow2_numeral)
  also have "\<dots> < pow2 1024" using assms(2) by (intro pow2_strict_mono) simp
  finally have ni: "\<not> is_infinity x" by (simp add: is_infinity_def infinity64_pow2)
  with binary64_grid [OF g] r show ?thesis by (simp add: finite64_def)
qed

lemma binary64_overflow:
  assumes "is_infinity x"
  shows "binary64 x = infinity_of x"
proof -
  from assms have big: "pow2 1024 \<le> \<bar>x\<bar>" by (simp add: is_infinity_def infinity64_pow2)
  with pow2_pos [of 1024] have "0 < \<bar>x\<bar>" by linarith
  then have nz: "x \<noteq> 0" by simp
  from big exponent_bounds(2) [OF nz] have "pow2 1024 < pow2 (exponent x + 1)" by simp
  then have "1024 < exponent x + 1" by (rule pow2_less_imp)
  then have m: "max (exponent x) (- 1022) = exponent x" by simp
  have "(1::rat) * pow2 1024 \<le> 2 ^ 53 * pow2 1024"
    by (intro mult_right_mono) (simp_all add: less_imp_le)
  then have "on_grid 1024 (pow2 1024)" by (simp add: on_grid_def abs_of_pos)
  then have "round64 (pow2 1024) = pow2 1024" by (rule on_grid_representable)
  with round64_mono [OF big] have "pow2 1024 \<le> \<bar>round64 x\<bar>" by (simp add: round64_abs)
  then have "infinity64 \<le> \<bar>of_int (roundTiesToEven (x / pow2 (exponent x - 52))) * pow2 (exponent x - 52)\<bar>"
    using nz by (simp add: round64_def Let_def infinity64_pow2)
  with nz m show ?thesis by (simp add: binary64_def Let_def)
qed

lemma rte_small:
  assumes "\<bar>y\<bar> \<le> 1 / 2"
  shows "roundTiesToEven y = 0"
proof (cases "0 \<le> y")
  case True
  with assms have "\<lfloor>y\<rfloor> = 0" by (intro floor_unique) simp_all
  with True assms show ?thesis by (simp add: roundTiesToEven_def Let_def)
next
  case False
  with assms have "\<lfloor>y\<rfloor> = - 1" by (intro floor_unique) simp_all
  with False assms show ?thesis by (simp add: roundTiesToEven_def Let_def)
qed

lemma binary64_underflow:
  assumes "\<bar>x\<bar> \<le> pow2 (- 1075)"
  shows "binary64 x = 0"
proof (cases "x = 0")
  case False
  from exponent_bounds(1) [OF False] assms have "pow2 (exponent x) \<le> pow2 (- 1075)" by simp
  then have "exponent x \<le> - 1075" by (rule pow2_le_imp)
  then have m: "max (exponent x) (- 1022) - 52 = - 1074" by simp
  have "pow2 (- 1075) = pow2 (- 1074) / 2"
    using pow2_diff [of "- 1074" 1] by (simp add: pow2_numeral)
  with assms have "\<bar>x\<bar> / pow2 (- 1074) \<le> 1 / 2" by (simp add: pos_divide_le_eq)
  then have "\<bar>x / pow2 (- 1074)\<bar> \<le> 1 / 2" by (simp add: abs_of_pos)
  then have "roundTiesToEven (x / pow2 (- 1074)) = 0" by (rule rte_small)
  moreover have "\<not> infinity64 \<le> 0" by (simp add: not_le)
  ultimately show ?thesis using False m by (simp add: binary64_def Let_def)
qed simp

lemma rte_below:
  assumes "y < of_int N - 1 / 2"
  shows "roundTiesToEven y \<le> N - 1"
proof -
  from assms have "y < of_int N" by simp
  then have fl: "\<lfloor>y\<rfloor> \<le> N - 1" by (simp add: floor_less_iff)
  show ?thesis
  proof (cases "\<lfloor>y\<rfloor> = N - 1")
    case True
    with assms have "y - of_int \<lfloor>y\<rfloor> < 1 / 2" by simp
    then have "roundTiesToEven y = \<lfloor>y\<rfloor>" by (simp add: roundTiesToEven_def Let_def)
    with True show ?thesis by simp
  next
    case False
    with fl rte_bounds [of y] show ?thesis by linarith
  qed
qed

lemma pow2_1024: "pow2 1024 = 2 ^ 53 * pow2 971" "pow2 971 = 2 * pow2 970"
  "pow2 1023 = 2 ^ 52 * pow2 971"
  using pow2_add [of 53 971] pow2_add [of 1 970] pow2_add [of 52 971] by (simp_all add: pow2_numeral)

lemma exponent_unique:
  assumes "pow2 e \<le> \<bar>x\<bar>" "\<bar>x\<bar> < pow2 (e + 1)"
  shows "exponent x = e"
proof -
  from assms pow2_pos [of e] have "0 < \<bar>x\<bar>" by linarith
  then have nz: "x \<noteq> 0" by simp
  note b = exponent_bounds [OF nz]
  from b(1) assms(2) have "pow2 (exponent x) < pow2 (e + 1)" by simp
  then have "exponent x < e + 1" by (rule pow2_less_imp)
  moreover from assms(1) b(2) have "pow2 e < pow2 (exponent x + 1)" by simp
  then have "e < exponent x + 1" by (rule pow2_less_imp)
  ultimately show ?thesis by simp
qed

lemma round64_below_infinity:
  assumes "\<bar>x\<bar> < pow2 1024 - pow2 970"
  shows "\<not> is_infinity (round64 x)"
proof -
  let ?y = "\<bar>x\<bar>"
  have "round64 ?y < pow2 1024"
  proof (cases "?y < pow2 1023")
    case True
    have "(1::rat) * pow2 1023 \<le> 2 ^ 53 * pow2 1023"
      by (intro mult_right_mono) (simp_all add: less_imp_le)
    then have "on_grid 1023 (pow2 1023)" by (simp add: on_grid_def abs_of_pos)
    then have "round64 (pow2 1023) = pow2 1023" by (rule on_grid_representable)
    with round64_mono [of ?y "pow2 1023"] True have "round64 ?y \<le> pow2 1023" by simp
    also have "\<dots> < pow2 1024" by (rule pow2_strict_mono) simp
    finally show ?thesis .
  next
    case False
    then have lo: "pow2 1023 \<le> \<bar>?y\<bar>" by simp
    from assms pow2_pos [of 970] have "?y < pow2 1024" by linarith
    then have hi: "\<bar>?y\<bar> < pow2 (1023 + 1)" by simp
    from exponent_unique [OF lo hi] have e: "exponent ?y = 1023" .
    from lo pow2_pos [of 1023] have nz: "?y \<noteq> 0" by linarith
    let ?u = "pow2 971"
    have r: "round64 ?y = of_int (roundTiesToEven (?y / ?u)) * ?u"
      using nz e by (simp add: round64_def Let_def del: abs_eq_0 abs_idempotent)
    from assms have "?y < (2 ^ 53 - 1 / 2) * ?u" by (simp add: pow2_1024 algebra_simps)
    then have "?y / ?u < of_int (2 ^ 53) - 1 / 2" by (simp add: pos_divide_less_eq)
    then have "roundTiesToEven (?y / ?u) \<le> 2 ^ 53 - 1" by (rule rte_below)
    then have "(of_int (roundTiesToEven (?y / ?u)) :: rat) \<le> of_int (2 ^ 53 - 1)"
      by (simp only: of_int_le_iff)
    then have "of_int (roundTiesToEven (?y / ?u)) * ?u \<le> (2 ^ 53 - 1) * ?u"
      by (simp add: mult_right_mono less_imp_le)
    also have "\<dots> < pow2 1024" by (simp add: pow2_1024 algebra_simps)
    finally show ?thesis by (simp only: r)
  qed
  then show ?thesis by (simp add: is_infinity_def infinity64_pow2 round64_abs [symmetric] not_le)
qed

lemma finite64_max:
  assumes "finite64 b"
  shows "\<bar>b\<bar> \<le> pow2 1024 - pow2 971"
proof (cases "\<bar>b\<bar> < pow2 1023")
  case True
  have "pow2 1023 \<le> pow2 1024 - pow2 971" by (simp add: pow2_1024)
  with True show ?thesis by simp
next
  case False
  then have lo: "pow2 1023 \<le> \<bar>b\<bar>" by simp
  from assms have hi: "\<bar>b\<bar> < pow2 (1023 + 1)"
    by (simp add: finite64_def is_infinity_def infinity64_pow2 not_le)
  from exponent_unique [OF lo hi] have e: "exponent b = 1023" .
  from lo pow2_pos [of 1023] have "0 < \<bar>b\<bar>" by linarith
  then have nz: "b \<noteq> 0" by simp
  let ?n = "roundTiesToEven (b / pow2 971)"
  from finite64_round64 [OF assms] nz e have b: "b = of_int ?n * pow2 971"
    by (simp add: round64_def Let_def)
  have absb: "\<bar>b\<bar> = \<bar>of_int ?n :: rat\<bar> * pow2 971"
    by (subst b) (simp add: abs_mult abs_of_pos)
  from hi have "\<bar>b\<bar> < 2 ^ 53 * pow2 971" by (simp add: pow2_1024(1))
  with absb have "\<bar>of_int ?n :: rat\<bar> * pow2 971 < 2 ^ 53 * pow2 971" by linarith
  then have "\<bar>of_int ?n :: rat\<bar> < of_int (2 ^ 53)" by simp
  then have "\<bar>?n\<bar> < 2 ^ 53" by (simp only: of_int_abs [symmetric] of_int_less_iff)
  then have "\<bar>?n\<bar> \<le> 2 ^ 53 - 1" by simp
  then have "(of_int \<bar>?n\<bar> :: rat) \<le> of_int (2 ^ 53 - 1)" by (simp only: of_int_le_iff)
  then have "\<bar>of_int ?n :: rat\<bar> * pow2 971 \<le> (2 ^ 53 - 1) * pow2 971"
    by (intro mult_right_mono) (simp_all add: less_imp_le)
  moreover have "(2 ^ 53 - 1) * pow2 971 = pow2 1024 - pow2 971"
    by (simp add: pow2_1024(1) algebra_simps)
  ultimately show ?thesis using absb by linarith
qed

lemma num_sub_small:
  assumes "finite64 a" "finite64 b" "\<bar>a\<bar> < pow2 970"
  shows "num_sub Binary64 a b = binary64 (a - b)"
proof -
  have "\<bar>a - b\<bar> \<le> \<bar>a\<bar> + \<bar>b\<bar>" by simp
  also have "\<dots> < pow2 970 + (pow2 1024 - pow2 971)"
    using assms(3) finite64_max [OF assms(2)] by simp
  also have "\<dots> = pow2 1024 - pow2 970" by (simp add: pow2_1024)
  finally have "\<not> is_infinity (round64 (a - b))" by (rule round64_below_infinity)
  then show ?thesis by (simp add: num_sub_def binary64_sum(2) [OF assms(1,2)])
qed

section \<open>Lists\<close>

lemma sum_list_upd:
  fixes xs :: "number list"
  shows "k < length xs \<Longrightarrow> sum_list (xs[k := x]) = sum_list xs + x - xs ! k"
  by (induction xs arbitrary: k) (auto split: nat.split)

lemma foldl_add:
  fixes f :: "'a \<Rightarrow> number"
  shows "foldl (\<lambda>sum m. sum + f m) a ms = a + sum_list (map f ms)"
  by (induction ms arbitrary: a) simp_all

lemma nonpos_sum_zero:
  fixes xs :: "number list"
  shows "\<forall>x\<in>set xs. x \<le> 0 \<Longrightarrow> 0 \<le> sum_list xs \<Longrightarrow> \<forall>x\<in>set xs. x = 0"
proof (induction xs)
  case Nil
  then show ?case by simp
next
  case (Cons x xs)
  then have "sum_list xs \<le> 0" by (simp add: sum_list_nonpos)
  with Cons.prems have "x = 0" "0 \<le> sum_list xs" by simp_all
  with Cons show ?case by simp
qed

section \<open>The stable sort\<close>

lemma sortBy_Cons: "sortBy cmp (x # xs) = insertBy cmp x (sortBy cmp xs)"
  by (simp add: sortBy_def)

lemma length_insertBy [simp]: "length (insertBy cmp a xs) = Suc (length xs)"
  by (induction xs) simp_all

lemma mset_insertBy [simp]: "mset (insertBy cmp a xs) = add_mset a (mset xs)"
  by (induction xs) simp_all

lemma set_insertBy [simp]: "set (insertBy cmp a xs) = insert a (set xs)"
  by (induction xs) auto

lemma mset_sortBy [simp]: "mset (sortBy cmp xs) = mset xs"
  by (induction xs) (simp_all add: sortBy_def)

lemma length_sortBy [simp]: "length (sortBy cmp xs) = length xs"
  by (induction xs) (simp_all add: sortBy_def)

lemma set_sortBy [simp]: "set (sortBy cmp xs) = set xs"
  using mset_sortBy [of cmp xs] by (metis set_mset_mset)

lemma sum_insertBy:
  fixes f :: "'a \<Rightarrow> number"
  shows "sum_list (map f (insertBy cmp a xs)) = f a + sum_list (map f xs)"
  by (induction xs) simp_all

lemma sum_sortBy:
  fixes f :: "'a \<Rightarrow> number"
  shows "sum_list (map f (sortBy cmp xs)) = sum_list (map f xs)"
  by (induction xs) (simp_all add: sortBy_def sum_insertBy)

text \<open>
  An element is inserted before the first one it does not have to follow, so it lands in
  front of the elements of its own key: the sort is stable.
\<close>

lemma filter_insertBy:
  fixes key :: "'a \<Rightarrow> number"
  assumes "\<forall>b. (cmp a b \<le> 0) = (key b \<le> key a)"
  shows "filter (\<lambda>y. key y = v) (insertBy cmp a xs)
           = (if key a = v then a # filter (\<lambda>y. key y = v) xs else filter (\<lambda>y. key y = v) xs)"
  using assms by (induction xs) (auto simp: not_le)

lemma filter_sortBy:
  fixes key :: "'a \<Rightarrow> number"
  assumes "\<forall>a b. (cmp a b \<le> 0) = (key b \<le> key a)"
  shows "filter (\<lambda>y. key y = v) (sortBy cmp xs) = filter (\<lambda>y. key y = v) xs"
proof (induction xs)
  case Nil
  show ?case by (simp add: sortBy_def)
next
  case (Cons x xs)
  from assms have "\<forall>b. (cmp x b \<le> 0) = (key b \<le> key x)" by simp
  with filter_insertBy [where cmp = cmp and a = x and key = key and v = v
      and xs = "sortBy cmp xs"] Cons show ?case
    by (simp add: sortBy_Cons)
qed

lemma sorted_insertBy:
  fixes key :: "'a \<Rightarrow> number"
  assumes "\<forall>b. (cmp a b \<le> 0) = (key b \<le> key a)"
    and "sorted_wrt (\<lambda>x y. key y \<le> key x) xs"
  shows "sorted_wrt (\<lambda>x y. key y \<le> key x) (insertBy cmp a xs)"
  using assms by (induction xs) (auto simp: not_le)

lemma sorted_sortBy:
  fixes key :: "'a \<Rightarrow> number"
  assumes "\<forall>a b. (cmp a b \<le> 0) = (key b \<le> key a)"
  shows "sorted_wrt (\<lambda>x y. key y \<le> key x) (sortBy cmp xs)"
proof (induction xs)
  case Nil
  show ?case by (simp add: sortBy_def)
next
  case (Cons x xs)
  from assms have "\<forall>b. (cmp x b \<le> 0) = (key b \<le> key x)" by simp
  with sorted_insertBy [where cmp = cmp and a = x and key = key and xs = "sortBy cmp xs"] Cons
  show ?case by (simp add: sortBy_Cons)
qed

lemma sorted_members_cmp:
  "\<forall>a b. (num_sub ar (m_cbBefore b) (m_cbBefore a) \<le> 0) = (m_cbBefore b \<le> m_cbBefore a)"
  by (simp add: num_sub_le_0_iff)

lemma sorted_members_stable:
  "filter (\<lambda>m. m_cbBefore m = v) (sorted_members ar members)
     = filter (\<lambda>m. m_cbBefore m = v) members"
  unfolding sorted_members_def
  by (rule filter_sortBy [where key = m_cbBefore, OF sorted_members_cmp])

lemma sorted_members_sorted:
  "sorted_wrt (\<lambda>a b. m_cbBefore b \<le> m_cbBefore a) (sorted_members ar members)"
  unfolding sorted_members_def
  by (rule sorted_sortBy [where key = m_cbBefore, OF sorted_members_cmp])

lemma sorted_members_mset [simp]: "mset (sorted_members ar members) = mset members"
  by (simp add: sorted_members_def)

lemma sorted_members_set [simp]: "set (sorted_members ar members) = set members"
  by (simp add: sorted_members_def)

lemma sorted_members_length [simp]: "length (sorted_members ar members) = length members"
  by (simp add: sorted_members_def)

section \<open>The greedy allocation\<close>

lemma transfers_Suc:
  "transfers ar i (Suc j) al =
     (if cbAfter (al ! j) < 0
      then (if cbAfter (transfer_step ar i j al ! i) = 0 then transfer_step ar i j al
            else transfers ar i j (transfer_step ar i j al))
      else transfers ar i j al)"
  by (simp add: transfer_step_def Let_def)

lemma map_upd_same:
  "g ((al ! i)\<lparr>cbAfter := v\<rparr>) = g (al ! i) \<Longrightarrow>
     map g (al[i := (al ! i)\<lparr>cbAfter := v\<rparr>]) = map g al"
  by (simp add: map_update) (metis list_update_beyond list_update_id not_le nth_map length_map)

lemma length_transfer_step [simp]: "length (transfer_step ar i j al) = length al"
  by (simp add: transfer_step_def Let_def)

lemma shipId_transfer_step [simp]: "map shipId (transfer_step ar i j al) = map shipId al"
  by (simp add: transfer_step_def Let_def map_upd_same)

lemma cbBefore_transfer_step [simp]: "map cbBefore (transfer_step ar i j al) = map cbBefore al"
  by (simp add: transfer_step_def Let_def map_upd_same)

lemma cbBefore_nth_transfer_step:
  "m < length al \<Longrightarrow> cbBefore (transfer_step ar i j al ! m) = cbBefore (al ! m)"
  using cbBefore_transfer_step [of ar i j al]
  by (metis length_transfer_step nth_map)

lemma cbAfter_transfer_step:
  "i < length al \<Longrightarrow> j < length al \<Longrightarrow> i \<noteq> j \<Longrightarrow>
   cbAfter (transfer_step ar i j al ! k) =
     (if k = j then num_add ar (cbAfter (al ! j)) (min (cbAfter (al ! i)) \<bar>cbAfter (al ! j)\<bar>)
      else if k = i then num_sub ar (cbAfter (al ! i)) (min (cbAfter (al ! i)) \<bar>cbAfter (al ! j)\<bar>)
      else cbAfter (al ! k))"
  by (simp add: transfer_step_def Let_def nth_list_update)

text \<open>In exact arithmetic a transfer changes no total.\<close>

lemma sum_transfer_step:
  "i < length al \<Longrightarrow> j < length al \<Longrightarrow>
   sum_list (map cbAfter (transfer_step Exact i j al)) = sum_list (map cbAfter al)"
  by (cases "i = j")
     (simp_all add: transfer_step_def Let_def map_update sum_list_upd nth_list_update
        num_sub_def num_add_def)

text \<open>
  A transfer from a member in surplus to a member in deficit, in either arithmetic: what the
  giver keeps is between zero and what it had, what the receiver has is between what it had
  and zero, and the giver is left with something only if the receiver is at zero.
\<close>

lemma transfer_values:
  assumes "0 < a" "b < 0"
  shows "0 \<le> num_sub ar a (min a \<bar>b\<bar>)"
    and "representable ar c \<Longrightarrow> a \<le> c \<Longrightarrow> num_sub ar a (min a \<bar>b\<bar>) \<le> c"
    and "num_add ar b (min a \<bar>b\<bar>) \<le> 0"
    and "representable ar c \<Longrightarrow> c \<le> b \<Longrightarrow> c \<le> num_add ar b (min a \<bar>b\<bar>)"
    and "num_sub ar a (min a \<bar>b\<bar>) \<noteq> 0 \<Longrightarrow>
           0 < num_sub ar a (min a \<bar>b\<bar>) \<and> num_add ar b (min a \<bar>b\<bar>) = 0"
proof -
  let ?t = "min a \<bar>b\<bar>"
  from assms have t: "0 \<le> ?t" "?t \<le> a" "?t \<le> - b" by simp_all
  show ge: "0 \<le> num_sub ar a ?t"
    unfolding num_sub_def using t by (intro rnd_nonneg) simp
  show "num_sub ar a ?t \<le> c" if "representable ar c" "a \<le> c"
  proof -
    from that t have "a - ?t \<le> c" by simp
    from rnd_mono [OF this, of ar] that(1) show ?thesis
      by (simp add: num_sub_def representable_def)
  qed
  show "num_add ar b ?t \<le> 0"
    unfolding num_add_def using t by (intro rnd_nonpos) simp
  show "c \<le> num_add ar b ?t" if "representable ar c" "c \<le> b"
  proof -
    from that t have "c \<le> b + ?t" by simp
    from rnd_mono [OF this, of ar] that(1) show ?thesis
      by (simp add: num_add_def representable_def)
  qed
  show "0 < num_sub ar a ?t \<and> num_add ar b ?t = 0" if nz: "num_sub ar a ?t \<noteq> 0"
  proof -
    from nz have "a - ?t \<noteq> 0" by (simp add: num_sub_def)
    with assms have "?t = - b" by (simp add: min_def split: if_splits)
    then have "num_add ar b ?t = 0" by (simp add: num_add_def)
    with ge nz show ?thesis by simp
  qed
qed

lemma step_toward:
  assumes "i < length al" "j < length al" "0 < cbAfter (al ! i)" "cbAfter (al ! j) < 0"
    and "m < length al" "toward_zero (al ! m)" "representable ar (cbBefore (al ! m))"
  shows "toward_zero (transfer_step ar i j al ! m)"
proof -
  from assms have ne: "i \<noteq> j" by auto
  note v = cbAfter_transfer_step [OF assms(1,2) ne]
  note tv = transfer_values [where ar = ar, OF assms(3,4)]
  note b = cbBefore_nth_transfer_step [of _ al ar i j]
  consider "m = i" | "m = j" | "m \<noteq> i" "m \<noteq> j" by blast
  then show ?thesis
  proof cases
    case 1
    with assms(3,6) have "cbAfter (al ! i) \<le> cbBefore (al ! i)" by (auto simp: toward_zero_def)
    with tv(1) tv(2) [of "cbBefore (al ! i)"] assms(1,7) 1 ne show ?thesis
      by (simp add: toward_zero_def b v)
  next
    case 2
    with assms(4,6) have "cbBefore (al ! j) \<le> cbAfter (al ! j)" by (auto simp: toward_zero_def)
    with tv(3) tv(4) [of "cbBefore (al ! j)"] assms(2,7) 2 show ?thesis
      by (simp add: toward_zero_def b v)
  next
    case 3
    with assms(5,6) show ?thesis by (simp add: toward_zero_def b v)
  qed
qed

lemma step_signs:
  assumes "i < length al" "j < length al" "0 < cbAfter (al ! i)" "cbAfter (al ! j) < 0"
  shows "0 \<le> cbAfter (al ! m) \<Longrightarrow> 0 \<le> cbAfter (transfer_step ar i j al ! m)"
    and "cbAfter (al ! m) \<le> 0 \<Longrightarrow> cbAfter (transfer_step ar i j al ! m) \<le> 0"
    and "cbAfter (transfer_step ar i j al ! i) \<noteq> 0 \<Longrightarrow>
           0 < cbAfter (transfer_step ar i j al ! i) \<and> cbAfter (transfer_step ar i j al ! j) = 0"
proof -
  from assms have ne: "i \<noteq> j" by auto
  note v = cbAfter_transfer_step [OF assms(1,2) ne]
  note tv = transfer_values [where ar = ar, OF assms(3,4)]
  show "0 \<le> cbAfter (al ! m) \<Longrightarrow> 0 \<le> cbAfter (transfer_step ar i j al ! m)"
    using assms ne tv(1) by (auto simp: v)
  show "cbAfter (al ! m) \<le> 0 \<Longrightarrow> cbAfter (transfer_step ar i j al ! m) \<le> 0"
    using assms ne tv(3) by (auto simp: v)
  show "cbAfter (transfer_step ar i j al ! i) \<noteq> 0 \<Longrightarrow>
           0 < cbAfter (transfer_step ar i j al ! i) \<and> cbAfter (transfer_step ar i j al ! j) = 0"
    using ne tv(5) by (simp add: v)
qed

lemmas [simp del] = transfers.simps(2)

lemma length_transfers [simp]: "length (transfers ar i k al) = length al"
  by (induction k arbitrary: al) (simp_all add: transfers_Suc)

lemma shipId_transfers [simp]: "map shipId (transfers ar i k al) = map shipId al"
  by (induction k arbitrary: al) (simp_all add: transfers_Suc)

lemma cbBefore_transfers [simp]: "map cbBefore (transfers ar i k al) = map cbBefore al"
  by (induction k arbitrary: al) (simp_all add: transfers_Suc)

lemma sum_transfers:
  "i < length al \<Longrightarrow> k \<le> length al \<Longrightarrow>
   sum_list (map cbAfter (transfers Exact i k al)) = sum_list (map cbAfter al)"
  by (induction k arbitrary: al) (simp_all add: transfers_Suc sum_transfer_step)

text \<open>
  The inner loop for a member \<open>i\<close> in surplus, once the members from \<open>k\<close> on are out of
  deficit: it ends with member \<open>i\<close> at zero or with no member in deficit.
\<close>

lemma transfers_inv:
  assumes "i < length al" "k \<le> length al" "0 < cbAfter (al ! i)"
    and "\<forall>m<length al. toward_zero (al ! m)"
    and "\<forall>m<length al. representable ar (cbBefore (al ! m))"
    and "\<forall>m<length al. k \<le> m \<longrightarrow> 0 \<le> cbAfter (al ! m)"
  shows "(\<forall>m<length al. toward_zero (transfers ar i k al ! m))
       \<and> (\<forall>m<length al. 0 \<le> cbAfter (al ! m) \<longrightarrow> 0 \<le> cbAfter (transfers ar i k al ! m))
       \<and> (\<forall>m<length al. cbAfter (al ! m) \<le> 0 \<longrightarrow> cbAfter (transfers ar i k al ! m) \<le> 0)
       \<and> (cbAfter (transfers ar i k al ! i) = 0
            \<or> (\<forall>m<length al. 0 \<le> cbAfter (transfers ar i k al ! m)))"
  using assms
proof (induction k arbitrary: al)
  case 0
  then show ?case by simp
next
  case (Suc j)
  then have j: "j < length al" by simp
  show ?case
  proof (cases "cbAfter (al ! j) < 0")
    case False
    have "\<forall>m<length al. j \<le> m \<longrightarrow> 0 \<le> cbAfter (al ! m)"
      using Suc.prems(6) False by (metis le_antisym not_less not_less_eq_eq)
    with Suc.IH [of al] Suc.prems j False show ?thesis
      by (simp add: transfers_Suc)
  next
    case True
    let ?al = "transfer_step ar i j al"
    note sg = step_signs [where ar = ar, OF Suc.prems(1) j Suc.prems(3) True]
    have w: "\<forall>m<length ?al. toward_zero (?al ! m)"
      using step_toward [OF Suc.prems(1) j Suc.prems(3) True] Suc.prems(4,5) by simp
    have rp: "\<forall>m<length ?al. representable ar (cbBefore (?al ! m))"
      using Suc.prems(5) by (simp add: cbBefore_nth_transfer_step)
    show ?thesis
    proof (cases "cbAfter (?al ! i) = 0")
      case z: True
      then show ?thesis
        using w sg(1,2) True by (simp add: transfers_Suc)
    next
      case nz: False
      from sg(3) [OF nz] have pos: "0 < cbAfter (?al ! i)" and zj: "cbAfter (?al ! j) = 0"
        by simp_all
      have ge: "\<forall>m<length ?al. j \<le> m \<longrightarrow> 0 \<le> cbAfter (?al ! m)"
      proof (intro allI impI)
        fix m assume m: "m < length ?al" "j \<le> m"
        show "0 \<le> cbAfter (?al ! m)"
        proof (cases "m = j")
          case True then show ?thesis using zj by simp
        next
          case False
          with m have "Suc j \<le> m" by simp
          with Suc.prems(6) m have "0 \<le> cbAfter (al ! m)" by simp
          then show ?thesis by (rule sg(1))
        qed
      qed
      have ih: "(\<forall>m<length ?al. toward_zero (transfers ar i j ?al ! m))
       \<and> (\<forall>m<length ?al. 0 \<le> cbAfter (?al ! m) \<longrightarrow> 0 \<le> cbAfter (transfers ar i j ?al ! m))
       \<and> (\<forall>m<length ?al. cbAfter (?al ! m) \<le> 0 \<longrightarrow> cbAfter (transfers ar i j ?al ! m) \<le> 0)
       \<and> (cbAfter (transfers ar i j ?al ! i) = 0
            \<or> (\<forall>m<length ?al. 0 \<le> cbAfter (transfers ar i j ?al ! m)))"
        using Suc.IH [of ?al] Suc.prems(1) j pos w rp ge by simp
      have eq: "transfers ar i (Suc j) al = transfers ar i j ?al"
        using True nz by (simp add: transfers_Suc)
      show ?thesis
        unfolding eq using ih sg(1,2) by simp
    qed
  qed
qed

lemma length_allocate_from [simp]: "length (allocate_from ar al i) = length al"
  by (simp add: allocate_from_def)

lemma shipId_allocate_from [simp]: "map shipId (allocate_from ar al i) = map shipId al"
  by (simp add: allocate_from_def)

lemma cbBefore_allocate_from [simp]: "map cbBefore (allocate_from ar al i) = map cbBefore al"
  by (simp add: allocate_from_def)

lemma sum_allocate_from:
  "i < length al \<Longrightarrow>
     sum_list (map cbAfter (allocate_from Exact al i)) = sum_list (map cbAfter al)"
  by (simp add: allocate_from_def sum_transfers)

lemma allocate_from_inv:
  assumes "i < length al" "\<forall>m<length al. toward_zero (al ! m)"
    and "\<forall>m<length al. representable ar (cbBefore (al ! m))"
  shows "(\<forall>m<length al. toward_zero (allocate_from ar al i ! m))
       \<and> (\<forall>m<length al. 0 \<le> cbAfter (al ! m) \<longrightarrow> 0 \<le> cbAfter (allocate_from ar al i ! m))
       \<and> (\<forall>m<length al. cbAfter (al ! m) \<le> 0 \<longrightarrow> cbAfter (allocate_from ar al i ! m) \<le> 0)
       \<and> (cbAfter (allocate_from ar al i ! i) \<le> 0
            \<or> (\<forall>m<length al. 0 \<le> cbAfter (allocate_from ar al i ! m)))"
proof (cases "0 < cbAfter (al ! i)")
  case True
  have "\<forall>m<length al. length al \<le> m \<longrightarrow> 0 \<le> cbAfter (al ! m)" by simp
  from transfers_inv [OF assms(1) le_refl True assms(2,3) this]
  show ?thesis using True by (auto simp add: allocate_from_def)
next
  case False
  then show ?thesis using assms by (simp add: allocate_from_def)
qed

lemma outer_shape:
  "length (foldl (allocate_from ar) al is) = length al
   \<and> map shipId (foldl (allocate_from ar) al is) = map shipId al
   \<and> map cbBefore (foldl (allocate_from ar) al is) = map cbBefore al"
  by (induction "is" arbitrary: al) simp_all

lemma outer_sum:
  "m \<le> length al \<Longrightarrow>
     sum_list (map cbAfter (foldl (allocate_from Exact) al [0 ..< m])) = sum_list (map cbAfter al)"
  by (induction m) (simp_all add: sum_allocate_from outer_shape)

lemma outer_settled:
  assumes "m \<le> length al" "\<forall>k<length al. toward_zero (al ! k)"
    and "\<forall>k<length al. representable ar (cbBefore (al ! k))"
  shows "settled m (foldl (allocate_from ar) al [0 ..< m])"
  using assms(1)
proof (induction m)
  case 0
  then show ?case using assms(2) by (simp add: settled_def)
next
  case (Suc m)
  let ?r = "foldl (allocate_from ar) al [0 ..< m]"
  have len: "length ?r = length al" by (simp add: outer_shape)
  have bef: "map cbBefore ?r = map cbBefore al" by (simp add: outer_shape)
  from Suc have m: "m < length ?r" and st: "settled m ?r" by (simp_all add: len)
  from st have tz: "\<forall>k<length ?r. toward_zero (?r ! k)" by (simp add: settled_def)
  have rp: "\<forall>k<length ?r. representable ar (cbBefore (?r ! k))"
  proof (intro allI impI)
    fix k assume k: "k < length ?r"
    then have "cbBefore (?r ! k) = cbBefore (al ! k)"
      using bef by (metis nth_map len)
    with assms(3) k len show "representable ar (cbBefore (?r ! k))" by simp
  qed
  note inv = allocate_from_inv [OF m tz rp]
  have "settled (Suc m) (allocate_from ar ?r m)"
  proof -
    from st have "(\<forall>k<m. cbAfter (?r ! k) \<le> 0) \<or> (\<forall>k<length ?r. 0 \<le> cbAfter (?r ! k))"
      by (simp add: settled_def)
    then show ?thesis
    proof
      assume a: "\<forall>k<m. cbAfter (?r ! k) \<le> 0"
      from inv have "cbAfter (allocate_from ar ?r m ! m) \<le> 0
            \<or> (\<forall>k<length ?r. 0 \<le> cbAfter (allocate_from ar ?r m ! k))" by blast
      then show ?thesis
      proof
        assume b: "cbAfter (allocate_from ar ?r m ! m) \<le> 0"
        have "\<forall>k<Suc m. cbAfter (allocate_from ar ?r m ! k) \<le> 0"
        proof (intro allI impI)
          fix k assume "k < Suc m"
          then consider "k = m" | "k < m" by linarith
          then show "cbAfter (allocate_from ar ?r m ! k) \<le> 0"
          proof cases
            case 1 then show ?thesis using b by simp
          next
            case 2
            with a m inv show ?thesis by simp
          qed
        qed
        with inv show ?thesis by (simp add: settled_def)
      next
        assume "\<forall>k<length ?r. 0 \<le> cbAfter (allocate_from ar ?r m ! k)"
        with inv show ?thesis by (simp add: settled_def)
      qed
    next
      assume "\<forall>k<length ?r. 0 \<le> cbAfter (?r ! k)"
      with inv show ?thesis by (simp add: settled_def)
    qed
  qed
  then show ?case by simp
qed

lemma greedyAllocate_alt:
  "greedyAllocate ar members =
     foldl (allocate_from ar) (initial (sorted_members ar members)) [0 ..< length members]"
  by (simp add: greedyAllocate_def initial_def Let_def)

lemma greedy_shape:
  "length (greedyAllocate ar members) = length members
   \<and> map shipId (greedyAllocate ar members) = map m_shipId (sorted_members ar members)
   \<and> map cbBefore (greedyAllocate ar members) = map m_cbBefore (sorted_members ar members)"
  by (simp add: greedyAllocate_alt outer_shape initial_def comp_def)

lemma initial_toward_zero: "\<forall>k<length (initial xs). toward_zero (initial xs ! k)"
  by (simp add: initial_def toward_zero_def) (metis le_cases)

lemma totalCB_exact: "totalCB Exact members = sum_list (map m_cbBefore members)"
  by (simp add: totalCB_def num_plus_def foldl_add)

text \<open>
  In binary64 the total is the sum of the balances when no addition rounds: the balances are
  multiples of one \<open>2 ^ k\<close> in the exponent range, and their magnitudes add up to at most
  \<open>2 ^ 53 \<times> 2 ^ k\<close>.
\<close>

lemma foldl_plus_grid:
  assumes "- 1074 \<le> k" "k \<le> 970"
  shows "a / pow2 k \<in> \<int> \<Longrightarrow> \<forall>m\<in>set ms. m_cbBefore m / pow2 k \<in> \<int> \<Longrightarrow>
     \<bar>a\<bar> + sum_list (map (\<lambda>m. \<bar>m_cbBefore m\<bar>) ms) \<le> 2 ^ 53 * pow2 k \<Longrightarrow>
     foldl (\<lambda>sum m. num_plus Binary64 sum (m_cbBefore m)) a ms = a + sum_list (map m_cbBefore ms)"
proof (induction ms arbitrary: a)
  case Nil
  show ?case by simp
next
  case (Cons m ms)
  let ?x = "m_cbBefore m"
  have rest: "0 \<le> sum_list (map (\<lambda>m. \<bar>m_cbBefore m\<bar>) ms)" by (rule sum_list_nonneg) auto
  from Cons.prems(2) have gx: "?x / pow2 k \<in> \<int>" by simp
  from Cons.prems(3) rest have ba: "\<bar>a\<bar> \<le> 2 ^ 53 * pow2 k" and bx: "\<bar>?x\<bar> \<le> 2 ^ 53 * pow2 k"
    and bs: "\<bar>a + ?x\<bar> \<le> 2 ^ 53 * pow2 k" by simp_all
  have gs: "(a + ?x) / pow2 k \<in> \<int>"
    using Ints_add [OF Cons.prems(1) gx] by (simp add: add_divide_distrib)
  have fa: "finite64 a" using Cons.prems(1) ba by (intro on_grid_finite64 [OF assms]) (simp add: on_grid_def)
  have fx: "finite64 ?x" using gx bx by (intro on_grid_finite64 [OF assms]) (simp add: on_grid_def)
  have fs: "finite64 (a + ?x)" using gs bs by (intro on_grid_finite64 [OF assms]) (simp add: on_grid_def)
  from fa fx fs have step: "num_plus Binary64 a ?x = a + ?x"
    by (simp add: num_plus_def finite64_def)
  have "\<bar>a + ?x\<bar> + sum_list (map (\<lambda>m. \<bar>m_cbBefore m\<bar>) ms) \<le> 2 ^ 53 * pow2 k"
    using Cons.prems(3) by simp
  from Cons.IH [OF gs _ this] Cons.prems(2) show ?case by (simp add: step)
qed

lemma totalCB_grid:
  assumes "- 1074 \<le> k" "k \<le> 970" "\<forall>m\<in>set ms. m_cbBefore m / pow2 k \<in> \<int>"
    "sum_list (map (\<lambda>m. \<bar>m_cbBefore m\<bar>) ms) \<le> 2 ^ 53 * pow2 k"
  shows "totalCB Binary64 ms = sum_list (map m_cbBefore ms)"
  using foldl_plus_grid [OF assms(1,2), of 0 ms] assms(3,4) by (simp add: totalCB_def)

lemma totalCB_snoc:
  "totalCB ar [] = 0"
  "totalCB ar (ms @ [m]) = num_plus ar (totalCB ar ms) (m_cbBefore m)"
  by (simp_all add: totalCB_def)


lemma greedy_sum:
  "sum_list (map cbAfter (greedyAllocate Exact members)) = sum_list (map m_cbBefore members)"
proof -
  have "sum_list (map cbAfter (initial (sorted_members Exact members)))
          = sum_list (map m_cbBefore members)"
    by (simp add: initial_def sorted_members_def comp_def sum_sortBy)
  with outer_sum [of "length members" "initial (sorted_members Exact members)"]
  show ?thesis by (simp add: greedyAllocate_alt initial_def)
qed

lemma greedy_settled:
  assumes "\<forall>m\<in>set members. representable ar (m_cbBefore m)"
  shows "settled (length members) (greedyAllocate ar members)"
proof -
  let ?al = "initial (sorted_members ar members)"
  have len: "length ?al = length members" by (simp add: initial_def)
  have "\<forall>k<length ?al. representable ar (cbBefore (?al ! k))"
    using assms by (simp add: initial_def) (metis nth_mem sorted_members_set sorted_members_length)
  with outer_settled [of "length members" ?al ar] initial_toward_zero [of "sorted_members ar members"] len
  show ?thesis by (simp add: greedyAllocate_alt)
qed

lemma greedy_toward_zero:
  "\<forall>m\<in>set members. representable ar (m_cbBefore m) \<Longrightarrow>
     \<forall>a \<in> set (greedyAllocate ar members). toward_zero a"
  using greedy_settled [of members ar] by (auto simp: settled_def in_set_conv_nth)

lemma toward_zero_fair: "toward_zero a \<Longrightarrow> fair a"
  by (auto simp: toward_zero_def fair_def)

text \<open>In exact arithmetic a pool whose total is not negative leaves no member in deficit.\<close>

lemma greedy_exact_nonneg:
  assumes "0 \<le> totalCB Exact members"
  shows "\<forall>a \<in> set (greedyAllocate Exact members). 0 \<le> cbAfter a"
proof -
  let ?r = "greedyAllocate Exact members"
  have len: "length ?r = length members" by (simp add: greedy_shape)
  have "\<forall>m\<in>set members. representable Exact (m_cbBefore m)" by (simp add: representable_def)
  from greedy_settled [OF this] have st: "settled (length ?r) ?r" by (simp add: len)
  have sum: "0 \<le> sum_list (map cbAfter ?r)"
    using assms by (simp add: greedy_sum totalCB_exact)
  from st have "(\<forall>k<length ?r. cbAfter (?r ! k) \<le> 0) \<or> (\<forall>k<length ?r. 0 \<le> cbAfter (?r ! k))"
    by (simp add: settled_def)
  then have "\<forall>k<length ?r. 0 \<le> cbAfter (?r ! k)"
  proof
    assume "\<forall>k<length ?r. cbAfter (?r ! k) \<le> 0"
    then have "\<forall>x\<in>set (map cbAfter ?r). x \<le> 0" by (auto simp: in_set_conv_nth)
    from nonpos_sum_zero [OF this sum] show ?thesis by simp
  qed
  then show ?thesis by (metis in_set_conv_nth)
qed

text \<open>
  On members taken from one grid every subtraction and addition of the allocator is exact in
  binary64, so the run is the run in exact arithmetic.
\<close>

lemma on_grid_transfer:
  assumes "on_grid k a" "on_grid k b" "0 < a" "b < 0"
  shows "on_grid k (a - min a \<bar>b\<bar>)" and "on_grid k (b + min a \<bar>b\<bar>)"
proof -
  let ?t = "min a \<bar>b\<bar>"
  from assms have t: "0 \<le> ?t" "?t \<le> a" "?t \<le> - b" by simp_all
  have "?t / pow2 k \<in> \<int>"
  proof (cases "a \<le> \<bar>b\<bar>")
    case True
    then show ?thesis using assms(1) by (simp add: on_grid_def min_def)
  next
    case False
    with assms(4) have "?t / pow2 k = - (b / pow2 k)" by (simp add: min_def)
    then show ?thesis using assms(2) by (simp add: on_grid_def)
  qed
  then have "(a - ?t) / pow2 k \<in> \<int>" "(b + ?t) / pow2 k \<in> \<int>"
    using assms(1,2) by (simp_all add: on_grid_def diff_divide_distrib add_divide_distrib)
  moreover have "\<bar>a - ?t\<bar> \<le> \<bar>a\<bar>" "\<bar>b + ?t\<bar> \<le> \<bar>b\<bar>" using t assms(3,4) by simp_all
  ultimately show "on_grid k (a - ?t)" "on_grid k (b + ?t)"
    using assms(1,2) by (auto simp: on_grid_def)
qed

lemma transfer_step_exact:
  assumes "i < length al" "j < length al" "0 < cbAfter (al ! i)" "cbAfter (al ! j) < 0"
    and "\<forall>m<length al. on_grid k (cbAfter (al ! m))"
  shows "transfer_step Binary64 i j al = transfer_step Exact i j al"
    and "\<forall>m<length al. on_grid k (cbAfter (transfer_step Exact i j al ! m))"
proof -
  from assms have ne: "i \<noteq> j" by auto
  note g = on_grid_transfer [of k "cbAfter (al ! i)" "cbAfter (al ! j)"]
  from assms have gi: "on_grid k (cbAfter (al ! i))" and gj: "on_grid k (cbAfter (al ! j))"
    by simp_all
  note gt = g [OF gi gj assms(3,4)]
  have "num_sub Binary64 (cbAfter (al ! i)) (min (cbAfter (al ! i)) \<bar>cbAfter (al ! j)\<bar>)
          = num_sub Exact (cbAfter (al ! i)) (min (cbAfter (al ! i)) \<bar>cbAfter (al ! j)\<bar>)"
    using on_grid_representable [OF gt(1)] by (simp add: num_sub_def)
  moreover have "num_add Binary64 (cbAfter (al ! j)) (min (cbAfter (al ! i)) \<bar>cbAfter (al ! j)\<bar>)
          = num_add Exact (cbAfter (al ! j)) (min (cbAfter (al ! i)) \<bar>cbAfter (al ! j)\<bar>)"
    using on_grid_representable [OF gt(2)] by (simp add: num_add_def)
  ultimately show "transfer_step Binary64 i j al = transfer_step Exact i j al"
    using ne assms(1,2) by (simp add: transfer_step_def Let_def)
  show "\<forall>m<length al. on_grid k (cbAfter (transfer_step Exact i j al ! m))"
    using assms(5) gt ne
    by (simp add: cbAfter_transfer_step [OF assms(1,2) ne] num_sub_def num_add_def)
qed

lemma transfers_exact:
  assumes "i < length al" "c \<le> length al" "0 < cbAfter (al ! i)"
    and "\<forall>m<length al. on_grid k (cbAfter (al ! m))"
  shows "transfers Binary64 i c al = transfers Exact i c al
       \<and> (\<forall>m<length al. on_grid k (cbAfter (transfers Exact i c al ! m)))"
  using assms
proof (induction c arbitrary: al)
  case 0
  then show ?case by simp
next
  case (Suc j)
  then have j: "j < length al" by simp
  show ?case
  proof (cases "cbAfter (al ! j) < 0")
    case False
    with Suc.IH [of al] Suc.prems j show ?thesis by (simp add: transfers_Suc)
  next
    case True
    let ?al = "transfer_step Exact i j al"
    note st = transfer_step_exact [OF Suc.prems(1) j Suc.prems(3) True Suc.prems(4)]
    show ?thesis
    proof (cases "cbAfter (?al ! i) = 0")
      case z: True
      then show ?thesis using st True by (simp add: transfers_Suc)
    next
      case nz: False
      from step_signs(3) [OF Suc.prems(1) j Suc.prems(3) True nz]
      have pos: "0 < cbAfter (?al ! i)" by simp
      from Suc.IH [of ?al] Suc.prems(1) j pos st(2)
      have "transfers Binary64 i j ?al = transfers Exact i j ?al
       \<and> (\<forall>m<length ?al. on_grid k (cbAfter (transfers Exact i j ?al ! m)))" by simp
      then show ?thesis using st(1) True nz by (simp add: transfers_Suc)
    qed
  qed
qed

lemma allocate_from_exact:
  assumes "i < length al" "\<forall>m<length al. on_grid k (cbAfter (al ! m))"
  shows "allocate_from Binary64 al i = allocate_from Exact al i
       \<and> (\<forall>m<length al. on_grid k (cbAfter (allocate_from Exact al i ! m)))"
  using transfers_exact [OF assms(1) le_refl _ assms(2)] assms(2)
  by (simp add: allocate_from_def)

lemma outer_exact:
  assumes "m \<le> length al" "\<forall>n<length al. on_grid k (cbAfter (al ! n))"
  shows "foldl (allocate_from Binary64) al [0 ..< m] = foldl (allocate_from Exact) al [0 ..< m]
       \<and> (\<forall>n<length al. on_grid k (cbAfter (foldl (allocate_from Exact) al [0 ..< m] ! n)))"
  using assms(1)
proof (induction m)
  case 0
  then show ?case using assms(2) by simp
next
  case (Suc m)
  let ?r = "foldl (allocate_from Exact) al [0 ..< m]"
  have len: "length ?r = length al" by (simp add: outer_shape)
  from Suc have ih: "foldl (allocate_from Binary64) al [0 ..< m] = ?r"
    and g: "\<forall>n<length ?r. on_grid k (cbAfter (?r ! n))" by (simp_all add: len)
  from Suc.prems have "m < length ?r" by (simp add: len)
  from allocate_from_exact [OF this g] ih show ?case by (simp add: len)
qed

lemma insertBy_cong:
  "\<forall>a b. (cmp a b \<le> 0) = (cmp' a b \<le> 0) \<Longrightarrow> insertBy cmp x xs = insertBy cmp' x xs"
  by (induction xs) simp_all

lemma sortBy_cong:
  "\<forall>a b. (cmp a b \<le> 0) = (cmp' a b \<le> 0) \<Longrightarrow> sortBy cmp xs = sortBy cmp' xs"
  by (induction xs) (simp_all add: sortBy_Cons insertBy_cong [of cmp cmp'], simp add: sortBy_def)

lemma sorted_members_arith: "sorted_members ar members = sorted_members Exact members"
  unfolding sorted_members_def
  by (rule sortBy_cong) (simp add: num_sub_le_0_iff)

lemma greedy_binary64_exact:
  assumes "\<forall>m\<in>set members. on_grid k (m_cbBefore m)"
  shows "greedyAllocate Binary64 members = greedyAllocate Exact members"
proof -
  let ?al = "initial (sorted_members Exact members)"
  have len: "length ?al = length members" by (simp add: initial_def)
  have "\<forall>n<length ?al. on_grid k (cbAfter (?al ! n))"
    using assms by (simp add: initial_def) (metis nth_mem sorted_members_set sorted_members_length)
  from outer_exact [OF _ this, of "length members"] len show ?thesis
    by (simp add: greedyAllocate_alt sorted_members_arith [of Binary64])
qed

section \<open>The pooling rules on the allocator's output\<close>

lemma check_rules_nonneg:
  "\<forall>a \<in> set allocated. 0 \<le> cbAfter a \<Longrightarrow> check_rules omap allocated = Inr ()"
  by (induction allocated) (auto simp: Let_def split: option.splits)

lemma check_rules_fair:
  "\<forall>a \<in> set allocated. fair a \<and> omap (shipId a) = Some (cbBefore a) \<Longrightarrow>
     check_rules omap allocated = Inr ()"
  by (induction allocated) (auto simp: Let_def fair_def split: option.splits)

lemma originalMap_distinct:
  assumes "distinct (map m_shipId members)" "m \<in> set members"
  shows "originalMap members (m_shipId m) = Some (m_cbBefore m)"
proof -
  let ?ps = "map (\<lambda>m. (m_shipId m, m_cbBefore m)) members"
  have "distinct (map fst (rev ?ps))" using assms(1) by (simp add: comp_def rev_map [symmetric])
  moreover have "(m_shipId m, m_cbBefore m) \<in> set (rev ?ps)" using assms(2) by auto
  ultimately show ?thesis unfolding originalMap_def by (rule map_of_is_SomeI)
qed

lemma greedy_members:
  assumes "a \<in> set (greedyAllocate ar members)"
  shows "\<exists>m \<in> set members. shipId a = m_shipId m \<and> cbBefore a = m_cbBefore m"
proof -
  let ?r = "greedyAllocate ar members" and ?s = "sorted_members ar members"
  from assms obtain k where k: "k < length ?r" "a = ?r ! k" by (auto simp: in_set_conv_nth)
  then have ks: "k < length ?s" by (simp add: greedy_shape)
  have "shipId a = m_shipId (?s ! k)"
    using greedy_shape [of ar members] k ks by (metis nth_map)
  moreover have "cbBefore a = m_cbBefore (?s ! k)"
    using greedy_shape [of ar members] k ks by (metis nth_map)
  moreover have "?s ! k \<in> set members" using ks by (metis nth_mem sorted_members_set)
  ultimately show ?thesis by blast
qed

lemma validate_distinct:
  assumes "\<forall>m\<in>set members. representable ar (m_cbBefore m)" "distinct (map m_shipId members)"
  shows "validatePoolingRules members (greedyAllocate ar members) = Inr ()"
  unfolding validatePoolingRules_def
proof (rule check_rules_fair, intro ballI conjI)
  fix a assume a: "a \<in> set (greedyAllocate ar members)"
  from greedy_toward_zero [OF assms(1)] a show "fair a" by (simp add: toward_zero_fair)
  from greedy_members [OF a] obtain m where "m \<in> set members" "shipId a = m_shipId m"
    "cbBefore a = m_cbBefore m" by blast
  with originalMap_distinct [OF assms(2), of m]
  show "originalMap members (shipId a) = Some (cbBefore a)" by simp
qed

lemma validate_exact:
  "0 \<le> totalCB Exact members \<Longrightarrow>
     validatePoolingRules members (greedyAllocate Exact members) = Inr ()"
  unfolding validatePoolingRules_def
  by (rule check_rules_nonneg) (rule greedy_exact_nonneg)

lemma execute_accepted:
  assumes "2 \<le> length (cp_members command)" "0 \<le> totalCB ar (cp_members command)"
    and "validatePoolingRules (cp_members command) (greedyAllocate ar (cp_members command)) = Inr ()"
  shows "CreatePoolUseCase_execute ar poolRepo command =
           (Inr (length poolRepo, greedyAllocate ar (cp_members command)),
            poolRepo @ [\<lparr> pool_year = cp_year command,
                           pool_members = greedyAllocate ar (cp_members command) \<rparr>])"
  using assms by (simp add: CreatePoolUseCase_execute_def pool_create_def Let_def)

section \<open>Route construction\<close>

text \<open>
  C7. \<^verbatim>\<open>Route.create\<close> fails exactly when the intensity is not positive, or the fuel
  consumption is not positive, or the year is before 2024; the checks run in that order, the
  first failing one gives the message, and every failure is a \<^verbatim>\<open>ValidationError\<close>. A
  candidate passing the three checks gives the route with exactly its field values.
\<close>

theorem route_create_validation:
  "create props =
     (if props_ghgIntensity props \<le> 0
        then Inl (ValidationError ''GHG intensity must be positive'')
      else if props_fuelConsumption props \<le> 0
        then Inl (ValidationError ''Fuel consumption must be positive'')
      else if props_year props < 2024
        then Inl (ValidationError ''Year must be 2024 or later'')
      else Inr \<lparr> route_id = props_id props,
                 route_routeId = props_routeId props,
                 route_vesselType = props_vesselType props,
                 route_fuelType = props_fuelType props,
                 route_year = props_year props,
                 route_ghgIntensity = props_ghgIntensity props,
                 route_fuelConsumption = props_fuelConsumption props,
                 route_distance = props_distance props,
                 route_isBaseline = props_isBaseline props \<rparr>)
   \<and> ((\<exists>e. create props = Inl e) \<longleftrightarrow>
        props_ghgIntensity props \<le> 0 \<or> props_fuelConsumption props \<le> 0
          \<or> props_year props < 2024)
   \<and> (\<forall>e. create props = Inl e \<longrightarrow> isValidationError e)"
  by (simp add: create_def validate_def)

theorem route_create_validation_witness:
  "create (validProps\<lparr>props_ghgIntensity := 0\<rparr>)
     = Inl (ValidationError ''GHG intensity must be positive'')
   \<and> create (validProps\<lparr>props_year := 2023\<rparr>)
     = Inl (ValidationError ''Year must be 2024 or later'')
   \<and> isValidationError (ValidationError ''Year must be 2024 or later'')
   \<and> create (validProps\<lparr>props_ghgIntensity := 0, props_fuelConsumption := 0,
                           props_year := 2023\<rparr>)
     = Inl (ValidationError ''GHG intensity must be positive'')
   \<and> create (validProps\<lparr>props_fuelConsumption := - 1, props_year := 2023\<rparr>)
     = Inl (ValidationError ''Fuel consumption must be positive'')
   \<and> create validProps = Inr validRoute"
  using route_create_validation [of "validProps\<lparr>props_ghgIntensity := 0\<rparr>"]
        route_create_validation [of "validProps\<lparr>props_year := 2023\<rparr>"]
        route_create_validation
          [of "validProps\<lparr>props_ghgIntensity := 0, props_fuelConsumption := 0,
                          props_year := 2023\<rparr>"]
        route_create_validation
          [of "validProps\<lparr>props_fuelConsumption := - 1, props_year := 2023\<rparr>"]
        route_create_validation [of validProps]
  by (simp add: validProps_def validRoute_def)

section \<open>Target intensity and compliance balance\<close>

lemma target_formula:
  "getTargetIntensity ar yr =
     num_mul ar (lit ar 91.16) (num_sub ar 1 (num_div ar (reductionPercent_spec yr) 100))"
  by (simp add: getTargetIntensity_def reductionRates_def reductionPercent_spec_def)

lemma target_exact:
  "getTargetIntensity Exact yr = 91.16 * (1 - reductionPercent_spec yr / 100)"
  by (simp add: target_formula lit_def num_mul_def num_sub_def num_div_def)

lemma target_default:
  "yr \<notin> {2025, 2030, 2035, 2040, 2045, 2050} \<Longrightarrow>
     getTargetIntensity ar yr = getTargetIntensity ar 2025"
  by (simp add: target_formula reductionPercent_spec_def)

lemma target_exact_values:
  "getTargetIntensity Exact 2025 = 89.3368" "getTargetIntensity Exact 2030 = 85.6904"
  "getTargetIntensity Exact 2035 = 77.9418" "getTargetIntensity Exact 2040 = 62.9004"
  "getTargetIntensity Exact 2045 = 34.6408" "getTargetIntensity Exact 2050 = 18.2320"
  "getTargetIntensity Exact 2024 = 89.3368"
  by (simp_all add: target_exact reductionPercent_spec_def)

lemma target_2025: "\<bar>getTargetIntensity Binary64 2025 - 89.3368\<bar> < 1 / 10 ^ 13"
  by code_simp

lemma target_2030: "\<bar>getTargetIntensity Binary64 2030 - 85.6904\<bar> < 1 / 10 ^ 13"
  by code_simp

lemma target_2035: "\<bar>getTargetIntensity Binary64 2035 - 77.9418\<bar> < 1 / 10 ^ 13"
  by code_simp

lemma target_2040: "\<bar>getTargetIntensity Binary64 2040 - 62.9004\<bar> < 1 / 10 ^ 13"
  by code_simp

lemma target_2045: "\<bar>getTargetIntensity Binary64 2045 - 34.6408\<bar> < 1 / 10 ^ 13"
  by code_simp

lemma target_2050: "\<bar>getTargetIntensity Binary64 2050 - 18.2320\<bar> < 1 / 10 ^ 13"
  by code_simp

text \<open>
  In binary64 the product for 2040 is not the number nearest to 62.9004: the listed values
  are the targets to the four decimals shown, not bit for bit.
\<close>

lemma target_2040_not_nearest: "getTargetIntensity Binary64 2040 \<noteq> lit Binary64 62.9004"
  by code_simp

text \<open>
  C4. The target intensity of a year is \<open>91.16 \<times> (1 - reduction / 100)\<close>, the reduction
  taken from the table and 2 for every year the table does not list. In exact arithmetic the
  six listed years and an unlisted one give exactly the values of the spec; in binary64 they
  give them up to \<open>10\<^sup>-\<^sup>1\<^sup>3\<close>.
\<close>

theorem target_intensity_table:
  "getTargetIntensity ar yr =
     num_mul ar (lit ar 91.16) (num_sub ar 1 (num_div ar (reductionPercent_spec yr) 100))
   \<and> getTargetIntensity Exact yr = 91.16 * (1 - reductionPercent_spec yr / 100)
   \<and> (yr \<notin> {2025, 2030, 2035, 2040, 2045, 2050}
        \<longrightarrow> getTargetIntensity ar yr = getTargetIntensity ar 2025)
   \<and> getTargetIntensity Exact 2025 = 89.3368
   \<and> getTargetIntensity Exact 2030 = 85.6904
   \<and> getTargetIntensity Exact 2035 = 77.9418
   \<and> getTargetIntensity Exact 2040 = 62.9004
   \<and> getTargetIntensity Exact 2045 = 34.6408
   \<and> getTargetIntensity Exact 2050 = 18.2320
   \<and> getTargetIntensity Exact 2024 = 89.3368
   \<and> \<bar>getTargetIntensity Binary64 2025 - 89.3368\<bar> < 1 / 10 ^ 13
   \<and> \<bar>getTargetIntensity Binary64 2030 - 85.6904\<bar> < 1 / 10 ^ 13
   \<and> \<bar>getTargetIntensity Binary64 2035 - 77.9418\<bar> < 1 / 10 ^ 13
   \<and> \<bar>getTargetIntensity Binary64 2040 - 62.9004\<bar> < 1 / 10 ^ 13
   \<and> \<bar>getTargetIntensity Binary64 2045 - 34.6408\<bar> < 1 / 10 ^ 13
   \<and> \<bar>getTargetIntensity Binary64 2050 - 18.2320\<bar> < 1 / 10 ^ 13"
  using target_formula [of ar yr] target_exact [of yr] target_default [of yr ar]
    target_exact_values target_2025 target_2030 target_2035 target_2040 target_2045 target_2050
  by blast

theorem target_intensity_table_witness:
  "getTargetIntensity Exact 2024 = getTargetIntensity Exact 2025
   \<and> getTargetIntensity Binary64 2024 = getTargetIntensity Binary64 2025
   \<and> getTargetIntensity Exact 2026 = 89.3368"
  using target_intensity_table [of Exact 2024] target_intensity_table [of Binary64 2024]
        target_intensity_table [of Exact 2026]
  by simp

lemma execute_found:
  "findByRouteId routeRepo (cc_routeId command) = Some route \<Longrightarrow>
   ComputeCBUseCase_execute ar routeRepo complianceRepo command =
     Inr (\<lparr> cb_value = cbFormula_spec ar (getTargetIntensity ar (cc_year command))
                          (route_ghgIntensity route) (route_fuelConsumption route),
             cb_year = cc_year command, cb_shipId = cc_shipId command \<rparr>,
          complianceRepo((cc_shipId command, cc_year command) \<mapsto>
            \<lparr> rec_shipId = cc_shipId command, rec_year = cc_year command,
              rec_cbGco2eq = cbFormula_spec ar (getTargetIntensity ar (cc_year command))
                               (route_ghgIntensity route) (route_fuelConsumption route),
              rec_routeId = Some (route_routeId route) \<rparr>))"
  by (simp add: ComputeCBUseCase_execute_def cbFormula_spec_def
        calculateEnergyInScope_def save_def Let_def)

lemma cbFormula_exact:
  "cbFormula_spec Exact target intensity consumption
     = (target - intensity) * (consumption * 41000) / 1000000"
  by (simp add: cbFormula_spec_def num_mul_def num_sub_def num_div_def)

lemma example_found: "findByRouteId exampleRoutes (cc_routeId exampleCommand) = Some validRoute"
  by (simp add: findByRouteId_def exampleRoutes_def exampleCommand_def)

lemma example_value_exact:
  "cbFormula_spec Exact (getTargetIntensity Exact 2025) 88 4800 = 263.08224"
  by (simp add: cbFormula_exact target_exact_values)

lemma example_value_binary64:
  "\<bar>cbFormula_spec Binary64 (getTargetIntensity Binary64 2025) 88 4800 - 263.08224\<bar> < 1 / 10 ^ 12"
  by code_simp

lemma example_returned:
  "returned_value (ComputeCBUseCase_execute ar exampleRoutes noRecords exampleCommand)
     = Some (cbFormula_spec ar (getTargetIntensity ar 2025) 88 4800)"
proof -
  note r = execute_found [OF example_found, of ar noRecords]
  show ?thesis
    unfolding r by (simp add: returned_value_def exampleCommand_def validRoute_def)
qed

text \<open>
  C3, as the spec states it, fails on its example: for the route with intensity 88 and
  consumption 4800 in year 2025 the balance is 263.08224 in exact arithmetic, and within
  \<open>10\<^sup>-\<^sup>1\<^sup>2\<close> of it in binary64, which is not 262.68 to two decimals.
\<close>

theorem computeCB_example_counterexample:
  "returned_value (ComputeCBUseCase_execute Exact exampleRoutes noRecords exampleCommand)
     = Some 263.08224
   \<and> \<not> \<bar>the (returned_value (ComputeCBUseCase_execute Exact exampleRoutes noRecords
              exampleCommand)) - 262.68\<bar> \<le> 0.005
   \<and> \<not> \<bar>the (returned_value (ComputeCBUseCase_execute Binary64 exampleRoutes noRecords
              exampleCommand)) - 262.68\<bar> \<le> 0.005"
  using example_value_binary64
  by (simp add: example_returned example_value_exact abs_if split: if_splits)

text \<open>
  C3, amended. For every route resolved by its code, the balance returned is
  \<open>(target - intensity) \<times> (consumption \<times> 41000) / 1000000\<close>, each operation in the
  arithmetic of the run; for the route with intensity 88 and consumption 4800 in year 2025
  it is 263.08224 in exact arithmetic and 263.08 to two decimals in both arithmetics.
\<close>

theorem computeCB_formula:
  "findByRouteId routeRepo (cc_routeId command) = Some route \<Longrightarrow>
     returned_value (ComputeCBUseCase_execute ar routeRepo complianceRepo command)
       = Some (cbFormula_spec ar (getTargetIntensity ar (cc_year command))
                 (route_ghgIntensity route) (route_fuelConsumption route))
     \<and> returned_value (ComputeCBUseCase_execute Exact routeRepo complianceRepo command)
       = Some ((getTargetIntensity Exact (cc_year command) - route_ghgIntensity route)
                 * (route_fuelConsumption route * 41000) / 1000000)
     \<and> cbFormula_spec Exact (getTargetIntensity Exact 2025) 88 4800 = 263.08224
     \<and> \<bar>cbFormula_spec ar (getTargetIntensity ar 2025) 88 4800 - 263.08\<bar> \<le> 0.005"
proof -
  assume found: "findByRouteId routeRepo (cc_routeId command) = Some route"
  have "\<bar>cbFormula_spec ar (getTargetIntensity ar 2025) 88 4800 - 263.08\<bar> \<le> 0.005"
  proof (cases ar)
    case Exact
    then show ?thesis by (simp add: example_value_exact)
  next
    case Binary64
    then show ?thesis using example_value_binary64 by (simp add: abs_if split: if_splits)
  qed
  moreover have "returned_value (ComputeCBUseCase_execute ar routeRepo complianceRepo command)
       = Some (cbFormula_spec ar (getTargetIntensity ar (cc_year command))
                 (route_ghgIntensity route) (route_fuelConsumption route))"
    unfolding execute_found [OF found] by (simp add: returned_value_def)
  moreover have "returned_value (ComputeCBUseCase_execute Exact routeRepo complianceRepo command)
       = Some ((getTargetIntensity Exact (cc_year command) - route_ghgIntensity route)
                 * (route_fuelConsumption route * 41000) / 1000000)"
    unfolding execute_found [OF found] by (simp add: returned_value_def cbFormula_exact)
  ultimately show ?thesis
    using example_value_exact by blast
qed

theorem computeCB_formula_witness:
  "findByRouteId exampleRoutes (cc_routeId exampleCommand) = Some validRoute
   \<and> returned_value (ComputeCBUseCase_execute Exact exampleRoutes noRecords exampleCommand)
       = Some 263.08224"
  using computeCB_formula [OF example_found, of Exact noRecords] example_found
  by (simp add: exampleCommand_def validRoute_def target_exact_values)

section \<open>Banking\<close>

lemma getTotalBanked_append:
  "getTotalBanked (repo @ es) ship yr = getTotalBanked repo ship yr + getTotalBanked es ship yr"
  by (simp add: getTotalBanked_def)

text \<open>
  C6. \<^verbatim>\<open>bankSurplus\<close> fails with \<open>RecordNotFound\<close> when there is no record for
  (ship, year); otherwise with \<open>NonPositiveCB\<close> when the record's balance is not positive;
  otherwise with \<open>AmountExceedsAvailable\<close> when the amount exceeds the balance; otherwise it
  adds exactly one entry, for the full amount and with nothing applied. No entry is created on
  a failure.
\<close>

theorem bankSurplus_checks:
  "BankSurplusUseCase_execute complianceRepo bankRepo command =
     (case complianceRepo (bs_shipId command, bs_year command) of
        None \<Rightarrow> (Inl RecordNotFound, complianceRepo, bankRepo)
      | Some cbRecord \<Rightarrow>
          if rec_cbGco2eq cbRecord \<le> 0 then (Inl NonPositiveCB, complianceRepo, bankRepo)
          else if rec_cbGco2eq cbRecord < bs_amount command
            then (Inl AmountExceedsAvailable, complianceRepo, bankRepo)
          else (Inr (), complianceRepo,
                bankRepo @ [\<lparr> be_shipId = bs_shipId command, be_year = bs_year command,
                               be_amountGco2eq = bs_amount command, be_appliedAmount = 0 \<rparr>]))
   \<and> (\<forall>e. fst (BankSurplusUseCase_execute complianceRepo bankRepo command) = Inl e
          \<longrightarrow> snd (snd (BankSurplusUseCase_execute complianceRepo bankRepo command)) = bankRepo)"
  by (simp add: BankSurplusUseCase_execute_def findByShipAndYear_def bank_create_def
           split: option.splits)

theorem bankSurplus_checks_witness:
  "BankSurplusUseCase_execute exampleRecords [] (bankCommand ''S001'' 500)
     = (Inr (), exampleRecords, [banked ''S001'' 500 0])
   \<and> BankSurplusUseCase_execute exampleRecords [] (bankCommand ''S001'' 800)
     = (Inl AmountExceedsAvailable, exampleRecords, [])
   \<and> BankSurplusUseCase_execute exampleRecords [] (bankCommand ''S002'' 50)
     = (Inl NonPositiveCB, exampleRecords, [])
   \<and> BankSurplusUseCase_execute exampleRecords [] (bankCommand ''S003'' 50)
     = (Inl RecordNotFound, exampleRecords, [])"
  using bankSurplus_checks [of exampleRecords "[]" "bankCommand ''S001'' 500"]
        bankSurplus_checks [of exampleRecords "[]" "bankCommand ''S001'' 800"]
        bankSurplus_checks [of exampleRecords "[]" "bankCommand ''S002'' 50"]
        bankSurplus_checks [of exampleRecords "[]" "bankCommand ''S003'' 50"]
  by (simp add: exampleRecords_def surplusRecord_def deficitRecord_def bankCommand_def
        banked_def)

text \<open>
  C9. \<^verbatim>\<open>bankSurplus\<close> leaves the compliance store as it is. For a record with a positive
  balance every amount up to the balance succeeds, whatever has been banked before and
  whatever the sign of the amount; the same command succeeds again on the resulting store,
  and the two calls raise the banked total of the key by twice the amount, which exceeds the
  balance as soon as the amount is more than half of it.
\<close>

theorem bankSurplus_unbounded:
  "fst (snd (BankSurplusUseCase_execute complianceRepo bankRepo command)) = complianceRepo
   \<and> (\<forall>cbRecord. complianceRepo (bs_shipId command, bs_year command) = Some cbRecord
          \<and> 0 < rec_cbGco2eq cbRecord \<and> bs_amount command \<le> rec_cbGco2eq cbRecord
        \<longrightarrow> (let entry = \<lparr> be_shipId = bs_shipId command, be_year = bs_year command,
                             be_amountGco2eq = bs_amount command, be_appliedAmount = 0 \<rparr>
             in BankSurplusUseCase_execute complianceRepo bankRepo command
                  = (Inr (), complianceRepo, bankRepo @ [entry])
              \<and> BankSurplusUseCase_execute complianceRepo (bankRepo @ [entry]) command
                  = (Inr (), complianceRepo, bankRepo @ [entry, entry])
              \<and> getTotalBanked (bankRepo @ [entry, entry]) (bs_shipId command) (bs_year command)
                  = getTotalBanked bankRepo (bs_shipId command) (bs_year command)
                      + 2 * bs_amount command))"
  by (auto simp add: BankSurplusUseCase_execute_def findByShipAndYear_def bank_create_def
        getTotalBanked_def for_key_def Let_def split: option.splits)

theorem bankSurplus_unbounded_witness:
  "BankSurplusUseCase_execute exampleRecords [] (bankCommand ''S001'' 500)
     = (Inr (), exampleRecords, [banked ''S001'' 500 0])
   \<and> BankSurplusUseCase_execute exampleRecords [banked ''S001'' 500 0] (bankCommand ''S001'' 500)
     = (Inr (), exampleRecords, [banked ''S001'' 500 0, banked ''S001'' 500 0])
   \<and> getTotalBanked [banked ''S001'' 500 0, banked ''S001'' 500 0] ''S001'' 2024 = 1000
   \<and> rec_cbGco2eq surplusRecord < 1000
   \<and> BankSurplusUseCase_execute exampleRecords [] (bankCommand ''S001'' 0)
     = (Inr (), exampleRecords, [banked ''S001'' 0 0])
   \<and> BankSurplusUseCase_execute exampleRecords [] (bankCommand ''S001'' (- 5))
     = (Inr (), exampleRecords, [banked ''S001'' (- 5) 0])"
  using bankSurplus_unbounded [of exampleRecords "[]" "bankCommand ''S001'' 500"]
        bankSurplus_unbounded [of exampleRecords "[]" "bankCommand ''S001'' 0"]
        bankSurplus_unbounded [of exampleRecords "[]" "bankCommand ''S001'' (- 5)"]
  by (simp add: exampleRecords_def surplusRecord_def bankCommand_def banked_def
        getTotalBanked_def for_key_def Let_def)

lemma book_applied_unapplied:
  "\<exists>e \<in> set repo. for_key ship yr e \<Longrightarrow>
     sum_list (map (\<lambda>e. be_amountGco2eq e - be_appliedAmount e)
        (filter (for_key ship yr) (book_applied ship yr amount repo)))
     = sum_list (map (\<lambda>e. be_amountGco2eq e - be_appliedAmount e)
        (filter (for_key ship yr) repo)) - amount"
  by (induction repo) (auto simp: for_key_def)

lemma book_applied_applied:
  "\<exists>e \<in> set repo. for_key ship yr e \<Longrightarrow>
     sum_list (map be_appliedAmount (filter (for_key ship yr) (book_applied ship yr amount repo)))
     = sum_list (map be_appliedAmount (filter (for_key ship yr) repo)) + amount"
  by (induction repo) (auto simp: for_key_def)

lemma positive_total_has_entry:
  "0 < getTotalBanked repo ship yr \<Longrightarrow> \<exists>e \<in> set repo. for_key ship yr e"
proof (rule ccontr)
  assume pos: "0 < getTotalBanked repo ship yr" and none: "\<not> (\<exists>e \<in> set repo. for_key ship yr e)"
  from none have "filter (for_key ship yr) repo = []"
    by (simp add: filter_empty_conv)
  with pos show False by (simp add: getTotalBanked_def)
qed

text \<open>
  C10. \<^verbatim>\<open>applyBanked\<close> fails with \<open>NoBankedSurplus\<close> when the unapplied banked total of
  (ship, year) is not positive, with \<open>AmountExceedsBanked\<close> when the amount exceeds that
  total, and otherwise raises the applied portion by the amount, leaving an unapplied total
  that is the old one less the amount and not negative.
\<close>

theorem applyBanked_rule:
  "(getTotalBanked repo ship yr \<le> 0 \<longrightarrow> applyBanked repo ship yr amount = Inl NoBankedSurplus)
   \<and> (0 < getTotalBanked repo ship yr \<and> getTotalBanked repo ship yr < amount
        \<longrightarrow> applyBanked repo ship yr amount = Inl AmountExceedsBanked)
   \<and> (0 < getTotalBanked repo ship yr \<and> amount \<le> getTotalBanked repo ship yr
        \<longrightarrow> applyBanked repo ship yr amount = Inr (book_applied ship yr amount repo)
          \<and> totalApplied (book_applied ship yr amount repo) ship yr
              = totalApplied repo ship yr + amount
          \<and> getTotalBanked (book_applied ship yr amount repo) ship yr
              = getTotalBanked repo ship yr - amount
          \<and> 0 \<le> getTotalBanked (book_applied ship yr amount repo) ship yr)"
proof -
  have "0 < getTotalBanked repo ship yr \<Longrightarrow>
          totalApplied (book_applied ship yr amount repo) ship yr
            = totalApplied repo ship yr + amount
        \<and> getTotalBanked (book_applied ship yr amount repo) ship yr
            = getTotalBanked repo ship yr - amount"
    using positive_total_has_entry [of repo ship yr]
          book_applied_applied [of repo ship yr amount]
          book_applied_unapplied [of repo ship yr amount]
    by (simp add: totalApplied_def getTotalBanked_def)
  then show ?thesis
    by (auto simp: applyBanked_def)
qed

theorem applyBanked_rule_witness:
  "getTotalBanked bankedEntries ''S001'' 2024 = 600
   \<and> applyBanked bankedEntries ''S001'' 2024 700 = Inl AmountExceedsBanked
   \<and> applyBanked bankedEntries ''S003'' 2024 1 = Inl NoBankedSurplus
   \<and> applyBanked bankedEntries ''S001'' 2024 600
       = Inr [banked ''S002'' 40 0, banked ''S001'' 500 700, banked ''S001'' 200 0]
   \<and> totalApplied (book_applied ''S001'' 2024 600 bankedEntries) ''S001'' 2024 = 700
   \<and> getTotalBanked (book_applied ''S001'' 2024 600 bankedEntries) ''S001'' 2024 = 0"
  using applyBanked_rule [of bankedEntries "''S001''" 2024 700]
        applyBanked_rule [of bankedEntries "''S003''" 2024 1]
        applyBanked_rule [of bankedEntries "''S001''" 2024 600]
  by (simp add: bankedEntries_def banked_def getTotalBanked_def totalApplied_def for_key_def)

section \<open>Pooling\<close>

lemma check_rules_error:
  "check_rules omap allocated = Inl e \<Longrightarrow> e \<noteq> ValidationError msg"
  by (induction allocated) (auto simp: Let_def split: option.splits if_splits)

lemma check_rules_is_validation:
  "check_rules omap allocated = Inl e \<Longrightarrow> isValidationError e"
  by (induction allocated) (auto simp: Let_def split: option.splits if_splits)


lemma example_allocation_exact:
  "greedyAllocate Exact exampleMembers
     = [allocation ''S001'' 1250.5 450.5, allocation ''S002'' (- 800) 0]"
  by code_simp

lemma example_allocation_binary64:
  "greedyAllocate Binary64 exampleMembers
     = [allocation ''S001'' 1250.5 450.5, allocation ''S002'' (- 800) 0]"
  by code_simp

lemma example_allocation:
  "greedyAllocate ar exampleMembers
     = [allocation ''S001'' 1250.5 450.5, allocation ''S002'' (- 800) 0]"
  by (cases ar) (simp_all add: example_allocation_exact example_allocation_binary64)

lemma rounding_total: "totalCB Binary64 roundingMembers = 18014398509481982"
  by code_simp

lemma rounding_allocation:
  "greedyAllocate Binary64 roundingMembers
     = [allocation ''S003'' 18014398509481984 18014398509481984,
        allocation ''S001'' (- 1) 0, allocation ''S002'' (- 1) 0]"
  by code_simp

lemma rounding_execute:
  "fst (CreatePoolUseCase_execute Binary64 [] (poolCommand roundingMembers))
     = Inr (0, [allocation ''S003'' 18014398509481984 18014398509481984,
                allocation ''S001'' (- 1) 0, allocation ''S002'' (- 1) 0])"
  by code_simp

lemma rounding_after_total:
  "totalAfter Binary64 (greedyAllocate Binary64 roundingMembers) = 18014398509481984"
  by code_simp




text \<open>
  C1, as the spec states it, fails in the arithmetic the code runs in. The members \<open>- 1\<close>,
  \<open>- 1\<close> and \<open>2 ^ 54\<close> are accepted, with the total \<open>2 ^ 54 - 2\<close>. Each deficit receives 1, and
  each time the surplus member is left with \<open>2 ^ 54 - 1\<close> rounded, which is \<open>2 ^ 54\<close>: the
  balances after pooling sum to \<open>2 ^ 54\<close>, whether summed exactly or in binary64.
\<close>

theorem pool_conservation_counterexample:
  "2 \<le> length roundingMembers
   \<and> 0 \<le> totalCB Binary64 roundingMembers
   \<and> fst (CreatePoolUseCase_execute Binary64 [] (poolCommand roundingMembers))
       = Inr (0, greedyAllocate Binary64 roundingMembers)
   \<and> sum_list (map m_cbBefore roundingMembers) = 18014398509481982
   \<and> totalCB Binary64 roundingMembers = 18014398509481982
   \<and> sum_list (map cbAfter (greedyAllocate Binary64 roundingMembers)) = 18014398509481984
   \<and> totalAfter Binary64 (greedyAllocate Binary64 roundingMembers) = 18014398509481984
   \<and> sum_list (map cbAfter (greedyAllocate Binary64 roundingMembers))
       \<noteq> sum_list (map m_cbBefore roundingMembers)"
  using rounding_execute rounding_total rounding_after_total
  by (simp add: rounding_allocation) (simp add: roundingMembers_def member_def allocation_def)

lemma execute_result:
  "fst (CreatePoolUseCase_execute ar poolRepo command) = Inr (pid, allocations) \<Longrightarrow>
     allocations = greedyAllocate ar (cp_members command)"
  by (auto simp: CreatePoolUseCase_execute_def pool_create_def Let_def
        split: if_splits sum.splits)

lemma example_on_grid: "\<forall>m\<in>set exampleMembers. on_grid (- 1) (m_cbBefore m)"
  by (simp add: exampleMembers_def member_def on_grid_def pow2_def)

text \<open>
  C1, amended. In exact arithmetic, and in binary64 when all the balances are multiples of
  one power of two \<open>2 ^ k\<close> and at most \<open>2 ^ 53 \<times> 2 ^ k\<close> in magnitude, the allocation list that
  \<^verbatim>\<open>CreatePoolUseCase.execute\<close> returns has balances after pooling that sum to the sum of
  the balances before, exactly; on such balances the binary64 run is the exact one. In exact
  arithmetic every accepted member list is allocated.
\<close>

theorem pool_conservation:
  "(\<forall>pid allocations.
       fst (CreatePoolUseCase_execute ar poolRepo command) = Inr (pid, allocations)
       \<and> (ar = Exact \<or> (\<forall>m\<in>set (cp_members command). on_grid k (m_cbBefore m)))
     \<longrightarrow> sum_list (map cbAfter allocations) = sum_list (map m_cbBefore (cp_members command))
       \<and> sum_list (map cbBefore allocations) = sum_list (map m_cbBefore (cp_members command)))
   \<and> ((\<forall>m\<in>set (cp_members command). on_grid k (m_cbBefore m))
     \<longrightarrow> greedyAllocate Binary64 (cp_members command) = greedyAllocate Exact (cp_members command))
   \<and> (2 \<le> length (cp_members command) \<and> 0 \<le> totalCB Exact (cp_members command)
     \<longrightarrow> fst (CreatePoolUseCase_execute Exact poolRepo command)
           = Inr (length poolRepo, greedyAllocate Exact (cp_members command)))"
proof -
  let ?ms = "cp_members command"
  have before: "sum_list (map cbBefore (greedyAllocate ar' ?ms)) = sum_list (map m_cbBefore ?ms)"
    for ar' by (simp add: greedy_shape sorted_members_def sum_sortBy)
  have after: "sum_list (map cbAfter (greedyAllocate ar ?ms)) = sum_list (map m_cbBefore ?ms)"
    if "ar = Exact \<or> (\<forall>m\<in>set ?ms. on_grid k (m_cbBefore m))"
  proof (cases ar)
    case Exact
    then show ?thesis by (simp add: greedy_sum)
  next
    case Binary64
    with that have "\<forall>m\<in>set ?ms. on_grid k (m_cbBefore m)" by simp
    from greedy_binary64_exact [OF this] Binary64 show ?thesis by (simp add: greedy_sum)
  qed
  have a: "\<forall>pid allocations.
       fst (CreatePoolUseCase_execute ar poolRepo command) = Inr (pid, allocations)
       \<and> (ar = Exact \<or> (\<forall>m\<in>set ?ms. on_grid k (m_cbBefore m)))
     \<longrightarrow> sum_list (map cbAfter allocations) = sum_list (map m_cbBefore ?ms)
       \<and> sum_list (map cbBefore allocations) = sum_list (map m_cbBefore ?ms)"
    using execute_result [of ar poolRepo command] before [of ar] after by blast
  have b: "(\<forall>m\<in>set ?ms. on_grid k (m_cbBefore m))
     \<longrightarrow> greedyAllocate Binary64 ?ms = greedyAllocate Exact ?ms"
    using greedy_binary64_exact [of ?ms k] by blast
  have c: "2 \<le> length ?ms \<and> 0 \<le> totalCB Exact ?ms
     \<longrightarrow> fst (CreatePoolUseCase_execute Exact poolRepo command)
           = Inr (length poolRepo, greedyAllocate Exact ?ms)"
    using execute_accepted [of command Exact poolRepo] validate_exact [of ?ms] by auto
  from a b c show ?thesis by blast
qed

theorem pool_conservation_witness:
  "2 \<le> length (cp_members (poolCommand exampleMembers))
   \<and> 0 \<le> totalCB Exact (cp_members (poolCommand exampleMembers))
   \<and> fst (CreatePoolUseCase_execute Exact [] (poolCommand exampleMembers))
       = Inr (0, [allocation ''S001'' 1250.5 450.5, allocation ''S002'' (- 800) 0])
   \<and> fst (CreatePoolUseCase_execute Binary64 [] (poolCommand exampleMembers))
       = Inr (0, [allocation ''S001'' 1250.5 450.5, allocation ''S002'' (- 800) 0])
   \<and> sum_list (map cbAfter [allocation ''S001'' 1250.5 450.5, allocation ''S002'' (- 800) 0])
       = sum_list (map m_cbBefore exampleMembers)"
proof -
  have acc: "2 \<le> length (cp_members (poolCommand exampleMembers))"
    "0 \<le> totalCB Exact (cp_members (poolCommand exampleMembers))"
    by (simp_all add: poolCommand_def exampleMembers_def totalCB_exact member_def)
  have ex: "fst (CreatePoolUseCase_execute Binary64 [] (poolCommand exampleMembers))
       = Inr (0, [allocation ''S001'' 1250.5 450.5, allocation ''S002'' (- 800) 0])"
    by code_simp
  have g: "\<forall>m\<in>set (cp_members (poolCommand exampleMembers)). on_grid (- 1) (m_cbBefore m)"
    using example_on_grid by (simp add: poolCommand_def)
  have s: "sum_list (map cbAfter [allocation ''S001'' 1250.5 450.5, allocation ''S002'' (- 800) 0])
       = sum_list (map m_cbBefore exampleMembers)"
    by (simp add: allocation_def exampleMembers_def member_def)
  from pool_conservation [of Exact "[]" "poolCommand exampleMembers" "- 1"]
       pool_conservation [of Binary64 "[]" "poolCommand exampleMembers" "- 1"] acc ex g s
  show ?thesis
    by (simp add: poolCommand_def example_allocation)
qed




lemma huge_grid: "on_grid 970 huge" "on_grid 970 (- huge)"
  by (simp_all add: on_grid_def huge_def pow2_def)

lemma huge_finite64: "finite64 huge" "finite64 (- huge)"
proof -
  from huge_grid(1) show "finite64 huge" by (intro on_grid_finite64 [of 970]) simp_all
  from huge_grid(2) show "finite64 (- huge)" by (intro on_grid_finite64 [of 970]) simp_all
qed

lemma huge_pos: "0 < huge"
  by (simp add: huge_def)

lemma huge_plus:
  "num_plus Binary64 0 huge = huge"
  "num_plus Binary64 huge huge = infinity64"
  "num_plus Binary64 infinity64 (- huge) = infinity64"
proof -
  from huge_finite64(1) have b: "binary64 huge = huge" and ni: "\<not> is_infinity huge"
    by (simp_all add: finite64_def)
  from b ni show "num_plus Binary64 0 huge = huge" by (simp add: num_plus_def)
  have i: "is_infinity (huge + huge)"
    by (simp add: is_infinity_def huge_def infinity64_def)
  from binary64_overflow [OF i] huge_pos have "binary64 (huge + huge) = infinity64"
    by (simp add: infinity_of_def)
  with ni show "num_plus Binary64 huge huge = infinity64" by (simp add: num_plus_def)
  have "is_infinity infinity64" by (simp add: is_infinity_def infinity64_def)
  then show "num_plus Binary64 infinity64 (- huge) = infinity64"
    by (simp add: num_plus_def)
qed

lemma overflow_total: "totalCB Binary64 overflowMembers = infinity64"
  by (simp add: totalCB_def overflowMembers_def member_def huge_plus)

lemma overflow_sum: "sum_list (map m_cbBefore overflowMembers) = - huge"
  by (simp add: overflowMembers_def member_def)

lemma sorted_symbolic:
  assumes "0 < h"
  shows "sorted_members Exact [member ''S001'' h, member ''S002'' h, member ''S003'' (- h),
            member ''S004'' (- h), member ''S005'' (- h)]
          = [member ''S001'' h, member ''S002'' h, member ''S003'' (- h),
            member ''S004'' (- h), member ''S005'' (- h)]"
  using assms by (simp add: sorted_members_def sortBy_def num_sub_def member_def)

lemma upt5: "[0..<5] = [0, 1, 2, 3, 4]"
  by (simp add: upt_rec)

lemma allocation_symbolic:
  assumes "0 < h"
  shows "greedyAllocate Exact [member ''S001'' h, member ''S002'' h, member ''S003'' (- h),
            member ''S004'' (- h), member ''S005'' (- h)]
          = [allocation ''S001'' h 0, allocation ''S002'' h 0, allocation ''S003'' (- h) (- h),
             allocation ''S004'' (- h) 0, allocation ''S005'' (- h) 0]"
  using assms
  by (simp add: greedyAllocate_def sorted_symbolic Let_def)
     (simp add: member_def allocation_def allocate_from_def upt5 eval_nat_numeral
        transfers.simps(2) num_sub_def num_add_def Let_def)

lemma overflow_allocation:
  "greedyAllocate Binary64 overflowMembers
     = [allocation ''S001'' huge 0, allocation ''S002'' huge 0,
        allocation ''S003'' (- huge) (- huge), allocation ''S004'' (- huge) 0,
        allocation ''S005'' (- huge) 0]"
proof -
  have "\<forall>m\<in>set overflowMembers. on_grid 970 (m_cbBefore m)"
    using huge_grid by (simp add: overflowMembers_def member_def)
  from greedy_binary64_exact [OF this] allocation_symbolic [OF huge_pos] show ?thesis
    by (simp add: overflowMembers_def)
qed

lemma overflow_execute:
  "CreatePoolUseCase_execute Binary64 [] (poolCommand overflowMembers)
     = (Inr (0, greedyAllocate Binary64 overflowMembers),
        [\<lparr> pool_year = 2025, pool_members = greedyAllocate Binary64 overflowMembers \<rparr>])"
proof -
  have r: "\<forall>m\<in>set overflowMembers. representable Binary64 (m_cbBefore m)"
    using huge_finite64 by (simp add: overflowMembers_def member_def finite64_representable)
  have d: "distinct (map m_shipId overflowMembers)"
    by (simp add: overflowMembers_def member_def)
  have len: "2 \<le> length (cp_members (poolCommand overflowMembers))"
    by (simp add: poolCommand_def overflowMembers_def)
  have tot: "0 \<le> totalCB Binary64 (cp_members (poolCommand overflowMembers))"
    by (simp add: poolCommand_def overflow_total less_imp_le)
  have val: "validatePoolingRules (cp_members (poolCommand overflowMembers))
      (greedyAllocate Binary64 (cp_members (poolCommand overflowMembers))) = Inr ()"
    using validate_distinct [OF r d] by (simp add: poolCommand_def)
  from execute_accepted [OF len tot val, of "[]"] show ?thesis
    by (simp add: poolCommand_def)
qed

lemma cancelling_sum: "sum_list (map m_cbBefore cancellingMembers) = 0"
  by (simp add: cancellingMembers_def member_def)

lemma cancelling_total: "totalCB Binary64 cancellingMembers = - 1"
  by code_simp

lemma cancelling_execute:
  "CreatePoolUseCase_execute Binary64 [] (poolCommand cancellingMembers)
     = (Inl PoolNegativeTotal, [])"
  by code_simp

lemma absorbed_sum: "sum_list (map m_cbBefore absorbedMembers) = - 2"
  by (simp add: absorbedMembers_def member_def)

lemma absorbed_total: "totalCB Binary64 absorbedMembers = 0"
  by code_simp

lemma absorbed_execute:
  "CreatePoolUseCase_execute Binary64 [] (poolCommand absorbedMembers)
     = (Inr (0, [allocation ''S004'' 18014398509481984 0, allocation ''S001'' (- 1) (- 1),
                 allocation ''S002'' (- 1) (- 1),
                 allocation ''S003'' (- 18014398509481984) 0]),
        [\<lparr> pool_year = 2025,
           pool_members = [allocation ''S004'' 18014398509481984 0,
                           allocation ''S001'' (- 1) (- 1), allocation ''S002'' (- 1) (- 1),
                           allocation ''S003'' (- 18014398509481984) 0] \<rparr>])"
  by code_simp

lemma deficit_grid:
  "\<forall>m\<in>set (cp_members (poolCommand deficitMembers)). m_cbBefore m / pow2 0 \<in> \<int>"
  "sum_list (map (\<lambda>m. \<bar>m_cbBefore m\<bar>) (cp_members (poolCommand deficitMembers))) \<le> 2 ^ 53 * pow2 0"
  "sum_list (map m_cbBefore (cp_members (poolCommand deficitMembers))) = - 50"
  by (simp_all add: poolCommand_def deficitMembers_def member_def pow2_def)

lemma balanced_grid:
  "\<forall>m\<in>set (cp_members (poolCommand balancedMembers)). m_cbBefore m / pow2 0 \<in> \<int>"
  "sum_list (map (\<lambda>m. \<bar>m_cbBefore m\<bar>) (cp_members (poolCommand balancedMembers))) \<le> 2 ^ 53 * pow2 0"
  "sum_list (map m_cbBefore (cp_members (poolCommand balancedMembers))) = 0"
  "distinct (map m_shipId (cp_members (poolCommand balancedMembers)))"
  by (simp_all add: poolCommand_def balancedMembers_def member_def pow2_def)

lemma balanced_representable:
  "list_all (representable Binary64) (map m_cbBefore (cp_members (poolCommand balancedMembers)))"
  by code_simp

text \<open>
  C5, as the spec states it, fails in the arithmetic the code runs in, in both directions: the
  total the code tests is the running binary64 sum of the balances, not their sum. The balances
  \<open>- 3\<close>, \<open>- 2 ^ 53\<close>, \<open>2 ^ 53 + 2\<close> and 1 sum to zero; their running sum is \<open>- 3\<close>,
  \<open>- 2 ^ 53 - 4\<close>, \<open>- 2\<close>, \<open>- 1\<close>, and the list is rejected with \<open>PoolNegativeTotal\<close>. The
  balances \<open>- 1\<close>, \<open>- 1\<close>, \<open>- 2 ^ 54\<close> and \<open>2 ^ 54\<close> of four ships sum to \<open>- 2\<close>; their
  running sum is \<open>- 1\<close>, \<open>- 2\<close>, \<open>- 2 ^ 54\<close>, 0, and the list is accepted, allocated and
  persisted, two members staying at \<open>- 1\<close>. The balances \<open>2 ^ 1023\<close>, \<open>2 ^ 1023\<close> and three
  times \<open>- 2 ^ 1023\<close> of five ships sum to \<open>- 2 ^ 1023\<close>; their running sum overflows to
  \<open>Infinity\<close> and stays there, and the list is accepted, allocated and persisted.
\<close>

theorem createPool_total_counterexample:
  "2 \<le> length cancellingMembers
   \<and> sum_list (map m_cbBefore cancellingMembers) = 0
   \<and> totalCB Binary64 cancellingMembers = - 1
   \<and> CreatePoolUseCase_execute Binary64 [] (poolCommand cancellingMembers)
       = (Inl PoolNegativeTotal, [])
   \<and> 2 \<le> length absorbedMembers
   \<and> sum_list (map m_cbBefore absorbedMembers) = - 2
   \<and> totalCB Binary64 absorbedMembers = 0
   \<and> CreatePoolUseCase_execute Binary64 [] (poolCommand absorbedMembers)
       = (Inr (0, [allocation ''S004'' 18014398509481984 0, allocation ''S001'' (- 1) (- 1),
                   allocation ''S002'' (- 1) (- 1),
                   allocation ''S003'' (- 18014398509481984) 0]),
          [\<lparr> pool_year = 2025,
             pool_members = [allocation ''S004'' 18014398509481984 0,
                             allocation ''S001'' (- 1) (- 1), allocation ''S002'' (- 1) (- 1),
                             allocation ''S003'' (- 18014398509481984) 0] \<rparr>])
   \<and> 2 \<le> length overflowMembers
   \<and> sum_list (map m_cbBefore overflowMembers) = - huge
   \<and> - huge < 0
   \<and> totalCB Binary64 overflowMembers = infinity64
   \<and> CreatePoolUseCase_execute Binary64 [] (poolCommand overflowMembers)
       = (Inr (0, [allocation ''S001'' huge 0, allocation ''S002'' huge 0,
                   allocation ''S003'' (- huge) (- huge), allocation ''S004'' (- huge) 0,
                   allocation ''S005'' (- huge) 0]),
          [\<lparr> pool_year = 2025,
             pool_members = [allocation ''S001'' huge 0, allocation ''S002'' huge 0,
                             allocation ''S003'' (- huge) (- huge),
                             allocation ''S004'' (- huge) 0,
                             allocation ''S005'' (- huge) 0] \<rparr>])"
  using huge_pos
  by (simp add: cancelling_sum cancelling_total cancelling_execute absorbed_sum absorbed_total
        absorbed_execute overflow_sum overflow_total overflow_execute overflow_allocation)
     (simp add: cancellingMembers_def absorbedMembers_def overflowMembers_def)

text \<open>
  C5, amended. \<^verbatim>\<open>CreatePoolUseCase.execute\<close> fails with \<open>PoolMinimumMembers\<close> exactly when
  there are fewer than two members, and with \<open>PoolNegativeTotal\<close> exactly when there are at
  least two and the total the code computes is negative. That total is the running sum of the
  balances, from 0 and left to right, each addition in the arithmetic of the run. Both errors
  are validation errors, and on either the pool store is left as it is. A computed total of
  zero or more passes the check; the list is then allocated and persisted in exact arithmetic,
  and in binary64 when no ship is listed twice and the balances are numbers of the arithmetic.
  The computed total is the sum of the balances in exact arithmetic, and in binary64 when the
  balances are multiples of one \<open>2 ^ k\<close>, with \<open>- 1074 \<le> k \<le> 970\<close>, whose magnitudes add up to at
  most \<open>2 ^ 53 \<times> 2 ^ k\<close>, so that no addition rounds or overflows.
\<close>

theorem createPool_total_check:
  "(fst (CreatePoolUseCase_execute ar poolRepo command) = Inl PoolMinimumMembers
      \<longleftrightarrow> length (cp_members command) < 2)
   \<and> (fst (CreatePoolUseCase_execute ar poolRepo command) = Inl PoolNegativeTotal
      \<longleftrightarrow> 2 \<le> length (cp_members command) \<and> totalCB ar (cp_members command) < 0)
   \<and> (length (cp_members command) < 2 \<or> totalCB ar (cp_members command) < 0
      \<longrightarrow> snd (CreatePoolUseCase_execute ar poolRepo command) = poolRepo
        \<and> (\<exists>e. fst (CreatePoolUseCase_execute ar poolRepo command) = Inl e
               \<and> isValidationError e))
   \<and> totalCB ar [] = 0
   \<and> totalCB ar (cp_members command @ [m])
       = num_plus ar (totalCB ar (cp_members command)) (m_cbBefore m)
   \<and> totalCB Exact (cp_members command) = sum_list (map m_cbBefore (cp_members command))
   \<and> (- 1074 \<le> k \<and> k \<le> 970
        \<and> (\<forall>m\<in>set (cp_members command). m_cbBefore m / pow2 k \<in> \<int>)
        \<and> sum_list (map (\<lambda>m. \<bar>m_cbBefore m\<bar>) (cp_members command)) \<le> 2 ^ 53 * pow2 k
      \<longrightarrow> totalCB Binary64 (cp_members command)
            = sum_list (map m_cbBefore (cp_members command)))
   \<and> (2 \<le> length (cp_members command) \<and> 0 \<le> totalCB ar (cp_members command)
        \<and> (ar = Exact
            \<or> distinct (map m_shipId (cp_members command))
              \<and> list_all (representable ar) (map m_cbBefore (cp_members command)))
      \<longrightarrow> CreatePoolUseCase_execute ar poolRepo command
            = (Inr (length poolRepo, greedyAllocate ar (cp_members command)),
               poolRepo @ [\<lparr> pool_year = cp_year command,
                              pool_members = greedyAllocate ar (cp_members command) \<rparr>]))"
proof -
  let ?ms = "cp_members command"
  let ?v = "validatePoolingRules ?ms (greedyAllocate ar ?ms)"
  have ne: "\<And>e msg. ?v = Inl e \<Longrightarrow> e \<noteq> ValidationError msg"
    unfolding validatePoolingRules_def by (rule check_rules_error)
  have a: "fst (CreatePoolUseCase_execute ar poolRepo command) = Inl PoolMinimumMembers
      \<longleftrightarrow> length ?ms < 2"
    using ne by (cases ?v)
      (auto simp: CreatePoolUseCase_execute_def pool_create_def Let_def)
  have b: "fst (CreatePoolUseCase_execute ar poolRepo command) = Inl PoolNegativeTotal
      \<longleftrightarrow> 2 \<le> length ?ms \<and> totalCB ar ?ms < 0"
    using ne by (cases ?v)
      (auto simp: CreatePoolUseCase_execute_def pool_create_def Let_def)
  have c: "length ?ms < 2 \<or> totalCB ar ?ms < 0
      \<longrightarrow> snd (CreatePoolUseCase_execute ar poolRepo command) = poolRepo
        \<and> (\<exists>e. fst (CreatePoolUseCase_execute ar poolRepo command) = Inl e
               \<and> isValidationError e)"
    by (auto simp: CreatePoolUseCase_execute_def)
  have g: "- 1074 \<le> k \<and> k \<le> 970
        \<and> (\<forall>m\<in>set ?ms. m_cbBefore m / pow2 k \<in> \<int>)
        \<and> sum_list (map (\<lambda>m. \<bar>m_cbBefore m\<bar>) ?ms) \<le> 2 ^ 53 * pow2 k
      \<longrightarrow> totalCB Binary64 ?ms = sum_list (map m_cbBefore ?ms)"
    using totalCB_grid [of k ?ms] by blast
  have v: "?v = Inr ()"
    if "0 \<le> totalCB ar ?ms"
      "ar = Exact \<or> distinct (map m_shipId ?ms) \<and> list_all (representable ar) (map m_cbBefore ?ms)"
  proof (cases "ar = Exact")
    case True
    with that(1) validate_exact [of ?ms] show ?thesis by simp
  next
    case False
    with that(2) have "\<forall>m\<in>set ?ms. representable ar (m_cbBefore m)"
      and "distinct (map m_shipId ?ms)" by (simp_all add: list_all_iff)
    then show ?thesis by (rule validate_distinct)
  qed
  have d: "2 \<le> length ?ms \<and> 0 \<le> totalCB ar ?ms
        \<and> (ar = Exact
            \<or> distinct (map m_shipId ?ms) \<and> list_all (representable ar) (map m_cbBefore ?ms))
      \<longrightarrow> CreatePoolUseCase_execute ar poolRepo command
            = (Inr (length poolRepo, greedyAllocate ar ?ms),
               poolRepo @ [\<lparr> pool_year = cp_year command,
                              pool_members = greedyAllocate ar ?ms \<rparr>])"
    using execute_accepted [of command ar poolRepo] v by blast
  from a b c d g totalCB_exact [of ?ms] totalCB_snoc(1) [of ar] totalCB_snoc(2) [of ar ?ms m]
  show ?thesis by blast
qed

theorem createPool_total_check_witness:
  "CreatePoolUseCase_execute Binary64 [] (poolCommand deficitMembers) = (Inl PoolNegativeTotal, [])
   \<and> totalCB Binary64 deficitMembers = - 50
   \<and> CreatePoolUseCase_execute Exact [] (poolCommand deficitMembers) = (Inl PoolNegativeTotal, [])
   \<and> CreatePoolUseCase_execute Binary64 [] (poolCommand [member ''S001'' 100])
       = (Inl PoolMinimumMembers, [])
   \<and> CreatePoolUseCase_execute Binary64 [] (poolCommand []) = (Inl PoolMinimumMembers, [])
   \<and> totalCB Binary64 balancedMembers = 0
   \<and> CreatePoolUseCase_execute Binary64 [] (poolCommand balancedMembers)
       = (Inr (0, greedyAllocate Binary64 balancedMembers),
          [\<lparr> pool_year = 2025, pool_members = greedyAllocate Binary64 balancedMembers \<rparr>])
   \<and> CreatePoolUseCase_execute Exact [] (poolCommand balancedMembers)
       = (Inr (0, greedyAllocate Exact balancedMembers),
          [\<lparr> pool_year = 2025, pool_members = greedyAllocate Exact balancedMembers \<rparr>])"
  using createPool_total_check [of Binary64 "[]" "poolCommand deficitMembers" "member ''S003'' 1" 0]
        createPool_total_check [of Exact "[]" "poolCommand deficitMembers" "member ''S003'' 1" 0]
        createPool_total_check [of Binary64 "[]" "poolCommand [member ''S001'' 100]" "member ''S003'' 1" 0]
        createPool_total_check [of Binary64 "[]" "poolCommand []" "member ''S003'' 1" 0]
        createPool_total_check [of Binary64 "[]" "poolCommand balancedMembers" "member ''S003'' 1" 0]
        createPool_total_check [of Exact "[]" "poolCommand balancedMembers" "member ''S003'' 1" 0]
        deficit_grid balanced_grid balanced_representable
  by (simp add: prod_eq_iff) (simp add: poolCommand_def deficitMembers_def balancedMembers_def)

lemma tied_sorted:
  "sorted_members Binary64 tiedMembers
     = [member ''S001'' 5, member ''S003'' 5, member ''S002'' (- 3), member ''S004'' (- 3)]"
  by code_simp

text \<open>
  C8. The allocation is a function of the member list alone, so the same list gives the same
  allocations. In either arithmetic the sorted working copy is the member list rearranged,
  largest balance first, and the members of any one balance keep the order they have in the
  input.
\<close>

theorem allocation_deterministic:
  "(members = members' \<longrightarrow> greedyAllocate ar members = greedyAllocate ar members')
   \<and> filter (\<lambda>m. m_cbBefore m = v) (sorted_members ar members)
       = filter (\<lambda>m. m_cbBefore m = v) members
   \<and> sorted_wrt (\<lambda>a b. m_cbBefore b \<le> m_cbBefore a) (sorted_members ar members)
   \<and> mset (sorted_members ar members) = mset members
   \<and> map shipId (greedyAllocate ar members) = map m_shipId (sorted_members ar members)
   \<and> map cbBefore (greedyAllocate ar members) = map m_cbBefore (sorted_members ar members)"
  using sorted_members_stable [of v ar members] sorted_members_sorted [of ar members]
    greedy_shape [of ar members]
  by simp

theorem allocation_deterministic_witness:
  "sorted_members Binary64 tiedMembers
     = [member ''S001'' 5, member ''S003'' 5, member ''S002'' (- 3), member ''S004'' (- 3)]
   \<and> filter (\<lambda>m. m_cbBefore m = 5) (sorted_members Binary64 tiedMembers)
       = [member ''S001'' 5, member ''S003'' 5]
   \<and> filter (\<lambda>m. m_cbBefore m = - 3) (sorted_members Binary64 tiedMembers)
       = [member ''S002'' (- 3), member ''S004'' (- 3)]
   \<and> greedyAllocate Binary64 tiedMembers = greedyAllocate Binary64 tiedMembers"
  using allocation_deterministic [of tiedMembers tiedMembers Binary64 5]
        allocation_deterministic [of tiedMembers tiedMembers Binary64 "- 3"]
        tied_sorted
  by (simp add: tiedMembers_def member_def)

end
